theory Spec2Isabelle
  imports Complex_Main
begin

section \<open>The beta-plane barotropic vorticity model (baro\_vort.py)\<close>

text \<open>
  The script is Python 2 (it uses the \<^verbatim>\<open>print\<close> statement), so \<^verbatim>\<open>/\<close> between two
  integers is floor division: \<^verbatim>\<open>-n/2\<close> is \<open>(- n) div 2\<close>, \<^verbatim>\<open>N/6\<close> is \<open>N div 6\<close>.
  Floating-point numbers are modelled by the reals and complex floating-point numbers by
  \<^typ>\<open>complex\<close>, so the rounding error of each operation is outside the model. Three
  places where double arithmetic differs from real arithmetic in kind, not by a rounding
  error, are written out:
  \<^item> a division by a floating-point zero, which raises nothing and gives inf: the
    coefficient \<open>nu\<close> is an option, \<open>None\<close> when it is infinite, and \<open>del4\<close> is \<open>0.0\<close> then;
  \<^item> absorption: the double \<open>1.0 + y\<close> is exactly \<open>1.0\<close> for \<open>- 2\<^sup>-\<^sup>5\<^sup>4 \<le> y \<le> 2\<^sup>-\<^sup>5\<^sup>3\<close> (round
    to nearest, ties to even), which decides whether an entry of \<open>del4\<close> is below \<open>1.0\<close>;
  \<^item> overflow of the timestep, the one quantity that the program itself multiplies
    without bound (by \<open>1.1\<close> per call when speed-up applies): the driver loop below leaves
    the model when \<open>2.0 * dt\<close> reaches \<open>2\<^sup>1\<^sup>0\<^sup>2\<^sup>4\<close>, where the double is inf.

  A two-dimensional numpy array is a list of rows. Every array of the program has the
  shape \<open>(n, n)\<close>; the elementwise operations below are those of numpy on arrays of equal
  shape.
\<close>

subsection \<open>Errors\<close>

text \<open>
  \<open>ZeroDivisionError\<close>: a Python float divided by the integer zero (\<^verbatim>\<open>domain / nx\<close>).
  \<open>ValueError\<close>: \<^verbatim>\<open>np.zeros\<close> with a negative dimension, \<^verbatim>\<open>np.max\<close> of an empty array.
  \<open>NameError\<close>: line 240 evaluates the name \<^verbatim>\<open>Error\<close>, which the script never defines.
  \<open>NotFinite\<close> is no exception of Python: it marks the point where a value of the program
  is inf or nan and the program runs on with it, while the real numbers of the model
  cannot follow.
\<close>

datatype error = ZeroDivisionError | ValueError | NameError | NotFinite

subsection \<open>Arrays and elementwise arithmetic\<close>

definition shape2 :: "nat \<Rightarrow> nat \<Rightarrow> 'a list list \<Rightarrow> bool" where
  "shape2 m n a \<longleftrightarrow> length a = m \<and> list_all (\<lambda>r. length r = n) a"

definition ew :: "('a \<Rightarrow> 'b) \<Rightarrow> 'a list list \<Rightarrow> 'b list list" where
  "ew f a = map (map f) a"

definition ew2 :: "('a \<Rightarrow> 'b \<Rightarrow> 'c) \<Rightarrow> 'a list list \<Rightarrow> 'b list list \<Rightarrow> 'c list list" where
  "ew2 f a b = map2 (map2 f) a b"

definition aadd :: "'a::plus list list \<Rightarrow> 'a list list \<Rightarrow> 'a list list" where
  "aadd a b = ew2 (+) a b"

definition asub :: "'a::minus list list \<Rightarrow> 'a list list \<Rightarrow> 'a list list" where
  "asub a b = ew2 (-) a b"

definition amul :: "'a::times list list \<Rightarrow> 'a list list \<Rightarrow> 'a list list" where
  "amul a b = ew2 (*) a b"

definition aneg :: "'a::uminus list list \<Rightarrow> 'a list list" where
  "aneg a = ew uminus a"

definition ascale :: "'a::times \<Rightarrow> 'a list list \<Rightarrow> 'a list list" where
  "ascale c a = ew ((*) c) a"

text \<open>A real array used in complex arithmetic is promoted to complex.\<close>

definition acomplex :: "real list list \<Rightarrow> complex list list" where
  "acomplex a = ew complex_of_real a"

definition zeros :: "nat \<Rightarrow> nat \<Rightarrow> 'a::zero list list" where
  "zeros m n = replicate m (replicate n 0)"

text \<open>\<^verbatim>\<open>np.arange(a, b)\<close> on integers, \<^verbatim>\<open>np.meshgrid(x, y)\<close> with the default indexing.\<close>

definition arange :: "int \<Rightarrow> int \<Rightarrow> int list" where
  "arange a b = [a..b - 1]"

definition meshgrid :: "'a list \<Rightarrow> 'a list \<Rightarrow> 'a list list \<times> 'a list list" where
  "meshgrid xs ys = (map (\<lambda>_. xs) ys, map (\<lambda>y. map (\<lambda>_. y) xs) ys)"

text \<open>\<^verbatim>\<open>a[mask] = v\<close> for a boolean mask of the shape of \<open>a\<close>.\<close>

definition mask_assign :: "'a list list \<Rightarrow> bool list list \<Rightarrow> 'a \<Rightarrow> 'a list list" where
  "mask_assign a msk v = ew2 (\<lambda>m x. if m then v else x) msk a"

text \<open>\<^verbatim>\<open>np.max\<close> raises ValueError on an array without elements.\<close>

definition np_max :: "real list list \<Rightarrow> error + real" where
  "np_max a = (case concat a of [] \<Rightarrow> Inl ValueError | x # xs \<Rightarrow> Inr (fold max xs x))"

subsection \<open>Parameters\<close>

record params =
  N :: int
  IC :: string
  AA_FAC :: real
  ubar :: real
  beta :: real
  tau :: real
  ALLOW_SPEEDUP :: bool
  SPEEDUP_AT_C :: real
  SLOWDN_AT_C :: real

definition default_params :: params where
  "default_params =
     \<lparr>N = 128, IC = ''spot'', AA_FAC = real_of_int (128 div 6), ubar = 0.00, beta = 1.7,
      tau = 0.1, ALLOW_SPEEDUP = False, SPEEDUP_AT_C = 0.6, SLOWDN_AT_C = 0.8\<rparr>"

subsection \<open>Spectral domain\<close>

definition domain :: real where
  "domain = 1.0"

definition dk :: real where
  "dk = 2.0 * pi / domain"

definition k_arr :: "int \<Rightarrow> real list" where
  "k_arr n = map (\<lambda>m. real_of_int m * dk) (arange ((- n) div 2) (n div 2))"

definition l_arr :: "int \<Rightarrow> real list" where
  "l_arr n = map (\<lambda>m. real_of_int m * dk) (arange ((- n) div 2) (n div 2))"

definition kk_of :: "int \<Rightarrow> real list list" where
  "kk_of n = fst (meshgrid (k_arr n) (l_arr n))"

definition ll_of :: "int \<Rightarrow> real list list" where
  "ll_of n = snd (meshgrid (k_arr n) (l_arr n))"

definition ksq_of :: "int \<Rightarrow> real list list" where
  "ksq_of n =
     (let ksq = aadd (ew (\<lambda>x. x ^ 2) (kk_of n)) (ew (\<lambda>x. x ^ 2) (ll_of n))
      in mask_assign ksq (ew (\<lambda>x. x = 0) ksq) 1.0)"

definition rksq_of :: "int \<Rightarrow> real list list" where
  "rksq_of n = ew (\<lambda>x. 1.0 / x) (ksq_of n)"

definition ik_of :: "int \<Rightarrow> complex list list" where
  "ik_of n = ascale \<i> (acomplex (kk_of n))"

definition il_of :: "int \<Rightarrow> complex list list" where
  "il_of n = ascale \<i> (acomplex (ll_of n))"

definition dx_of :: "int \<Rightarrow> real" where
  "dx_of n = domain / real_of_int n"

definition dt_of :: "int \<Rightarrow> real" where
  "dt_of n = 0.4 * 16.0 / real_of_int n"

text \<open>
  Line 222. \<^verbatim>\<open>np.floor(n/3)\<close> is the float of \<open>n div 3\<close>. Where it is \<open>0.0\<close> (for \<open>n < 3\<close>), the
  quotient \<^verbatim>\<open>domain/(0.0*2.0*pi)\<close> is inf, and so is \<open>nu\<close>; where \<open>tau\<close> is \<open>0.0\<close>, the
  quotient by \<open>tau\<close> is inf. \<open>nu_of\<close> is \<open>None\<close> in both cases and the real quotient
  \<open>nu_finite\<close> otherwise.
\<close>

definition nu_finite :: "int \<Rightarrow> real \<Rightarrow> real" where
  "nu_finite n t = ((domain / (real_of_int (n div 3) * 2.0 * pi)) ^ 4) / t"

definition nu_of :: "int \<Rightarrow> real \<Rightarrow> real option" where
  "nu_of n t = (if n div 3 = 0 \<or> t = 0 then None else Some (nu_finite n t))"

text \<open>
  Line 223, one entry: \<^verbatim>\<open>1.0 / (1.0 + nu*ksq**2*dt)\<close> for the entry \<open>x\<close> of \<open>ksq\<close>. With an
  infinite \<open>nu\<close> the product is infinite (the entries of \<open>ksq\<close> are positive, and so is \<open>dt\<close>
  wherever the array has an entry) and the quotient is \<open>0.0\<close>. With \<open>y = nu*ksq**2*dt\<close>
  in the range that the double \<open>1.0\<close> absorbs, the denominator is \<open>1.0\<close> and so is the
  quotient. \<open>del4_infinite\<close> holds where the denominator is zero (possible for a negative
  \<open>tau\<close> only) and the code's quotient is inf.
\<close>

definition del4_entry :: "real option \<Rightarrow> real \<Rightarrow> real \<Rightarrow> real" where
  "del4_entry nu x d =
     (case nu of
        None \<Rightarrow> 0.0
      | Some v \<Rightarrow>
          (let y = v * x ^ 2 * d
           in if - (1 / 2 ^ 54) \<le> y \<and> y \<le> 1 / 2 ^ 53 then 1.0 else 1.0 / (1.0 + y)))"

definition del4_infinite :: "real option \<Rightarrow> real \<Rightarrow> real \<Rightarrow> bool" where
  "del4_infinite nu x d = (case nu of None \<Rightarrow> False | Some v \<Rightarrow> 1.0 + v * x ^ 2 * d = 0)"

definition del4_of :: "int \<Rightarrow> real \<Rightarrow> real list list" where
  "del4_of n t = ew (\<lambda>x. del4_entry (nu_of n t) x (dt_of n)) (ksq_of n)"

definition k_max_of :: "real \<Rightarrow> real" where
  "k_max_of aa = aa * 2 * dk"

record grid =
  dx :: real
  kk :: "real list list"
  ll :: "real list list"
  ksq :: "real list list"
  rksq :: "real list list"
  ik :: "complex list list"
  il :: "complex list list"
  del4 :: "real list list"
  k_max :: real

subsection \<open>Transforms\<close>

text \<open>
  \<^verbatim>\<open>fftn\<close>, \<^verbatim>\<open>ifftn\<close> and \<^verbatim>\<open>fftshift\<close> are numpy's (or pyfftw's, with the same
  interface). They are modelled by their documented meaning on a rectangular array of
  shape \<open>(M, N)\<close>: the discrete Fourier transform
  \<open>A k l = (\<Sum>m<M. \<Sum>j<N. a m j * exp (- 2 pi i (m k / M + j l / N)))\<close>, its inverse with the
  opposite sign and the factor \<open>1 / (M N)\<close>, and for \<^verbatim>\<open>fftshift\<close>, along every axis of
  length \<open>n\<close>, the elements from index \<open>(n + 1) div 2\<close> on followed by those before it.
\<close>

definition ncols :: "'a list list \<Rightarrow> nat" where
  "ncols a = (case a of [] \<Rightarrow> 0 | r # _ \<Rightarrow> length r)"

definition fftn :: "complex list list \<Rightarrow> complex list list" where
  "fftn a =
     (let M = length a; N = ncols a
      in map (\<lambda>k. map (\<lambda>l. \<Sum>m<M. \<Sum>j<N. a ! m ! j *
              cis (- (2 * pi * (real m * real k / real M + real j * real l / real N))))
            [0..<N]) [0..<M])"

definition ifftn :: "complex list list \<Rightarrow> complex list list" where
  "ifftn a =
     (let M = length a; N = ncols a
      in map (\<lambda>m. map (\<lambda>j. (\<Sum>k<M. \<Sum>l<N. a ! k ! l *
              cis (2 * pi * (real m * real k / real M + real j * real l / real N)))
              / of_nat (M * N))
            [0..<N]) [0..<M])"

definition fftshift1 :: "'a list \<Rightarrow> 'a list" where
  "fftshift1 xs = (let p2 = (length xs + 1) div 2 in drop p2 xs @ take p2 xs)"

definition fftshift :: "'a list list \<Rightarrow> 'a list list" where
  "fftshift a = fftshift1 (map fftshift1 a)"

definition ft :: "complex list list \<Rightarrow> complex list list" where
  "ft phi = fftshift (fftn phi)"

definition ift :: "complex list list \<Rightarrow> complex list list" where
  "ift psi = ifftn (fftshift psi)"

subsection \<open>Field operators\<close>

definition raw_filter ::
  "complex list list \<Rightarrow> complex list list \<Rightarrow> complex list list \<Rightarrow> real \<Rightarrow> complex list list" where
  "raw_filter prev cur new nu =
     aadd cur (ascale (complex_of_real nu) (aadd (asub new (ascale 2.0 cur)) prev))"

definition courant_number ::
  "complex list list \<Rightarrow> complex list list \<Rightarrow> real \<Rightarrow> real \<Rightarrow> error + real" where
  "courant_number psix psiy dx' dt' =
     (case np_max (ew cmod psiy) of Inl e \<Rightarrow> Inl e
      | Inr maxu \<Rightarrow>
          (case np_max (ew cmod psix) of Inl e \<Rightarrow> Inl e
           | Inr maxv \<Rightarrow> let maxvel = maxu + maxv in Inr (maxvel * dt' / dx')))"

definition leapfrog :: "complex list list \<Rightarrow> complex list list \<Rightarrow> real \<Rightarrow> complex list list" where
  "leapfrog phi f dt' = aadd phi (ascale (complex_of_real (2.0 * dt')) f)"

definition enstrophy :: "complex list list \<Rightarrow> real list list" where
  "enstrophy w = ew Re (amul (ascale 0.5 w) (ew cnj w))"

definition grad :: "grid \<Rightarrow> complex list list \<Rightarrow> complex list list \<times> complex list list" where
  "grad g phit = (let phixt = amul (ik g) phit; phiyt = amul (il g) phit in (phixt, phiyt))"

definition velocity :: "grid \<Rightarrow> complex list list \<Rightarrow> complex list list \<times> complex list list" where
  "velocity g psit =
     (let (psixt, psiyt) = grad g psit; psix = ift psixt; psiy = ift psiyt
      in (psiy, aneg psix))"

definition anti_alias :: "grid \<Rightarrow> complex list list \<Rightarrow> real \<Rightarrow> complex list list" where
  "anti_alias g phit kmax =
     mask_assign phit
       (ew2 (\<or>) (ew (\<lambda>x. \<bar>x\<bar> \<ge> kmax) (kk g)) (ew (\<lambda>x. \<bar>x\<bar> \<ge> kmax) (ll g))) 0.0"

text \<open>Line 153, the Poisson solve: \<^verbatim>\<open>psit = -rksq * zt\<close>.\<close>

definition poisson :: "grid \<Rightarrow> complex list list \<Rightarrow> complex list list" where
  "poisson g w = amul (acomplex (aneg (rksq g))) w"

subsection \<open>The time integrator\<close>

text \<open>
  The globals \<^verbatim>\<open>_zt\<close>, \<^verbatim>\<open>zt\<close>, \<^verbatim>\<open>zt_\<close>, \<^verbatim>\<open>z\<close> and \<^verbatim>\<open>dt\<close> that \<^verbatim>\<open>integrate\<close> assigns are the
  fields \<open>zt_prev\<close>, \<open>zt\<close>, \<open>zt_next\<close>, \<open>z\<close> and \<open>dt\<close> of the state.
\<close>

record state =
  zt_prev :: "complex list list"
  zt :: "complex list list"
  zt_next :: "complex list list"
  z :: "complex list list"
  dt :: real

definition integrate :: "params \<Rightarrow> grid \<Rightarrow> state \<Rightarrow> error + (real \<times> state)" where
  "integrate p g st =
     (let psit = poisson g (zt st);
          (psixt, psiyt) = grad g psit;
          (zxt, zyt) = grad g (zt st);
          z' = ift (zt st);
          psix = ift psixt;
          psiy = ift psiyt;
          zx = ift zxt;
          zy = ift zyt
      in case courant_number psix psiy (dx g) (dt st) of
           Inl e \<Rightarrow> Inl e
         | Inr c \<Rightarrow>
            (let dt' = (if c > SLOWDN_AT_C p then 0.9 * dt st
                        else if c < SPEEDUP_AT_C p \<and> ALLOW_SPEEDUP p then 1.1 * dt st
                        else dt st);
                 jac = aadd (asub (amul psix zy) (amul psiy zx))
                            (ascale (complex_of_real (ubar p)) zx);
                 jact = ft jac;
                 jact = anti_alias g jact (k_max g);
                 rhs = asub (aneg jact) (ascale (complex_of_real (beta p)) psixt);
                 zt1 = leapfrog (zt_prev st) rhs dt';
                 zt1 = amul zt1 (acomplex (del4 g));
                 zt0 = raw_filter (zt_prev st) (zt st) zt1 0.01
             in Inr (c, \<lparr>zt_prev = zt0, zt = zt1, zt_next = zt1, z = z', dt = dt'\<rparr>)))"

subsection \<open>Initial conditions, setup and the driver loop\<close>

text \<open>
  \<^verbatim>\<open>random_ic\<close> draws from numpy's generator; the sample \<open>u\<close> it draws (an array of the
  shape of the field) is a parameter of the model.
\<close>

definition random_ic :: "real list list \<Rightarrow> complex list list \<Rightarrow> complex list list" where
  "random_ic u w = acomplex (ew (\<lambda>x. 2 * x - 1) u)"

definition spot_ic :: "complex list list \<Rightarrow> complex list list" where
  "spot_ic w =
     (let d = int (length w) div 4
      in map (\<lambda>(i, row). map (\<lambda>(j, x).
           let ppxy = \<bar>d - int i\<bar> ^ 2 + \<bar>d * 2 - int j\<bar> ^ 2;
               dist = sqrt (real_of_int ppxy)
           in if dist < real_of_int d
              then complex_of_real
                     (2.0 * cos (0.5 * pi * (real_of_int d - dist) / real_of_int d + 0.5 * pi) ^ 2)
              else x) (enumerate 0 row)) (enumerate 0 w))"

definition ICS :: "real list list \<Rightarrow> string \<rightharpoonup> (complex list list \<Rightarrow> complex list list)" where
  "ICS u = [''random'' \<mapsto> random_ic u, ''spot'' \<mapsto> spot_ic]"

text \<open>
  Lines 199 to 225: the grid that the parameters determine. Line 201 raises for \<open>N = 0\<close>
  before the grid is built, so \<open>dx_of\<close> and \<open>dt_of\<close> stand for the script's values for
  \<open>N \<noteq> 0\<close> only. Where an entry of \<open>del4\<close> is inf (\<open>del4_infinite\<close>), the script completes
  its setup with that entry and \<open>script_setup\<close> returns \<open>NotFinite\<close>.
\<close>

definition grid_of :: "params \<Rightarrow> grid" where
  "grid_of p =
     (let n = N p
      in \<lparr>dx = dx_of n, kk = kk_of n, ll = ll_of n, ksq = ksq_of n, rksq = rksq_of n,
          ik = ik_of n, il = il_of n, del4 = del4_of n (tau p),
          k_max = k_max_of (AA_FAC p)\<rparr>)"

definition script_setup ::
  "(string \<rightharpoonup> (complex list list \<Rightarrow> complex list list)) \<Rightarrow> params \<Rightarrow> error + (grid \<times> state)" where
  "script_setup ics p =
     (let n = N p
      in if n = 0 then Inl ZeroDivisionError
         else
          (let g = grid_of p
           in if n < 0 then Inl ValueError
              else
               (case ics (IC p) of
                  None \<Rightarrow> Inl NameError
                | Some ic_fn \<Rightarrow>
                   (let z0 = ic_fn (zeros (nat n) (nat n));
                        zt0 = ft z0
                    in if list_ex (list_ex (\<lambda>x. del4_infinite (nu_of n (tau p)) x (dt_of n)))
                            (ksq_of n)
                       then Inl NotFinite
                       else Inr (g, \<lparr>zt_prev = zt0, zt = zt0, zt_next = zt0, z = z0,
                                     dt = dt_of n\<rparr>)))))"

text \<open>
  The driver is \<^verbatim>\<open>while True: c = integrate()\<close>. \<open>steps p g fuel st\<close> follows its first
  \<open>fuel\<close> iterations: it returns the number of calls of \<^verbatim>\<open>integrate\<close> made and either the
  exception that ended the loop or the Courant numbers returned and the state reached.

  A call that leaves a timestep with \<open>2.0 * dt\<close> at or beyond \<open>2\<^sup>1\<^sup>0\<^sup>2\<^sup>4\<close> is a call in which
  the double \<^verbatim>\<open>2.0*dt\<close> of \<^verbatim>\<open>leapfrog\<close> is inf, so that every coefficient of the new fields
  is inf or nan (\<open>inf * 0.0\<close> is nan): the loop of the model ends there with \<open>NotFinite\<close>,
  while the script runs on with these fields.
\<close>

definition dbl_overflow :: real where
  "dbl_overflow = 2 ^ 1024"

fun steps :: "params \<Rightarrow> grid \<Rightarrow> nat \<Rightarrow> state \<Rightarrow> nat \<times> (error + (real list \<times> state))" where
  "steps p g 0 st = (0, Inr ([], st))"
| "steps p g (Suc fuel) st =
     (case integrate p g st of
        Inl e \<Rightarrow> (1, Inl e)
      | Inr (c, st') \<Rightarrow>
         if dbl_overflow \<le> \<bar>2.0 * dt st'\<bar> then (1, Inl NotFinite)
         else
          (case steps p g fuel st' of
             (m, Inl e) \<Rightarrow> (Suc m, Inl e)
           | (m, Inr (cs, st'')) \<Rightarrow> (Suc m, Inr (c # cs, st''))))"

definition run ::
  "(string \<rightharpoonup> (complex list list \<Rightarrow> complex list list)) \<Rightarrow> params \<Rightarrow> nat
     \<Rightarrow> nat \<times> (error + (real list \<times> state))" where
  "run ics p fuel =
     (case script_setup ics p of Inl e \<Rightarrow> (0, Inl e) | Inr (g, st) \<Rightarrow> steps p g fuel st)"

subsection \<open>Quantities named in the statements\<close>

text \<open>
  The Jacobian in real space that \<^verbatim>\<open>integrate\<close> forms from the current spectral vorticity
  (lines 153 to 174, without the Courant check between them).
\<close>

definition jacobian :: "params \<Rightarrow> grid \<Rightarrow> complex list list \<Rightarrow> complex list list" where
  "jacobian p g w =
     (let psit = poisson g w;
          (psixt, psiyt) = grad g psit;
          (zxt, zyt) = grad g w;
          psix = ift psixt;
          psiy = ift psiyt;
          zx = ift zxt;
          zy = ift zyt
      in aadd (asub (amul psix zy) (amul psiy zx)) (ascale (complex_of_real (ubar p)) zx))"

text \<open>
  The arrays of a grid and the spectral fields of a state have the shape \<open>(n, n)\<close>, and the
  grid spacing is positive, as in every grid and state that the script builds.
\<close>

definition grid_ok :: "nat \<Rightarrow> grid \<Rightarrow> bool" where
  "grid_ok n g \<longleftrightarrow>
     0 < dx g \<and> shape2 n n (kk g) \<and> shape2 n n (ll g) \<and> shape2 n n (ksq g) \<and> shape2 n n (rksq g)
     \<and> shape2 n n (ik g) \<and> shape2 n n (il g) \<and> shape2 n n (del4 g)"

definition state_ok :: "nat \<Rightarrow> state \<Rightarrow> bool" where
  "state_ok n st \<longleftrightarrow> shape2 n n (zt_prev st) \<and> shape2 n n (zt st)"


section \<open>Lemmas on arrays and on the grid\<close>

lemma shape2_iff: "shape2 m n a \<longleftrightarrow> length a = m \<and> (\<forall>i<m. length (a ! i) = n)"
  by (auto simp: shape2_def list_all_length)

lemma shape2_length: "shape2 m n a \<Longrightarrow> length a = m"
  by (simp add: shape2_iff)

lemma shape2_row: "shape2 m n a \<Longrightarrow> i < m \<Longrightarrow> length (a ! i) = n"
  by (simp add: shape2_iff)

lemma array_eqI:
  assumes "shape2 m n a" "shape2 m n b"
    and "\<And>i j. i < m \<Longrightarrow> j < n \<Longrightarrow> a ! i ! j = b ! i ! j"
  shows "a = b"
proof (rule nth_equalityI)
  show "length a = length b" using assms by (simp add: shape2_iff)
next
  fix i assume "i < length a"
  then have i: "i < m" using assms(1) by (simp add: shape2_iff)
  show "a ! i = b ! i"
    using assms i by (intro nth_equalityI) (simp_all add: shape2_iff)
qed

lemma ew_shape: "shape2 m n a \<Longrightarrow> shape2 m n (ew f a)"
  by (simp add: shape2_iff ew_def)

lemma ew_nth: "shape2 m n a \<Longrightarrow> i < m \<Longrightarrow> j < n \<Longrightarrow> ew f a ! i ! j = f (a ! i ! j)"
  by (simp add: shape2_iff ew_def)

lemma ew2_shape: "shape2 m n a \<Longrightarrow> shape2 m n b \<Longrightarrow> shape2 m n (ew2 f a b)"
  by (simp add: shape2_iff ew2_def)

lemma ew2_nth:
  "shape2 m n a \<Longrightarrow> shape2 m n b \<Longrightarrow> i < m \<Longrightarrow> j < n \<Longrightarrow>
     ew2 f a b ! i ! j = f (a ! i ! j) (b ! i ! j)"
  by (simp add: shape2_iff ew2_def)

lemma zeros_shape: "shape2 m n (zeros m n)"
  by (simp add: shape2_iff zeros_def)

lemma zeros_nth: "i < m \<Longrightarrow> j < n \<Longrightarrow> zeros m n ! i ! j = 0"
  by (simp add: zeros_def)

lemmas arith_defs = aadd_def asub_def amul_def aneg_def ascale_def acomplex_def mask_assign_def

lemma length_arange: "length (arange a b) = nat (b - a)"
  by (simp add: arange_def)

lemma nth_arange: "i < nat (b - a) \<Longrightarrow> arange a b ! i = a + int i"
  by (simp add: arange_def)

lemma half_diff: "n div 2 - (- n) div 2 = (n::int)"
  by presburger

lemma length_k_arr: "length (k_arr n) = nat n"
  by (simp add: k_arr_def length_arange half_diff)

lemma nth_k_arr: "i < nat n \<Longrightarrow> k_arr n ! i = real_of_int ((- n) div 2 + int i) * dk"
  by (simp add: k_arr_def length_arange nth_arange half_diff)

lemma l_arr_eq: "l_arr n = k_arr n"
  by (simp add: k_arr_def l_arr_def)

lemma dk_pos: "0 < dk"
  by (simp add: dk_def domain_def)

lemma set_k_arr: "set (k_arr n) = (\<lambda>m. real_of_int m * dk) ` {(- n) div 2 .. n div 2 - 1}"
  by (simp add: k_arr_def arange_def)

lemma kk_shape: "shape2 (nat n) (nat n) (kk_of n)"
  by (simp add: shape2_iff kk_of_def meshgrid_def length_k_arr l_arr_eq)

lemma ll_shape: "shape2 (nat n) (nat n) (ll_of n)"
  by (simp add: shape2_iff ll_of_def meshgrid_def length_k_arr l_arr_eq)

lemma kk_nth: "i < nat n \<Longrightarrow> j < nat n \<Longrightarrow> kk_of n ! i ! j = k_arr n ! j"
  by (simp add: kk_of_def meshgrid_def length_k_arr l_arr_eq)

lemma ll_nth: "i < nat n \<Longrightarrow> j < nat n \<Longrightarrow> ll_of n ! i ! j = k_arr n ! i"
  by (simp add: ll_of_def meshgrid_def length_k_arr l_arr_eq)

lemma ksq_shape: "shape2 (nat n) (nat n) (ksq_of n)"
  unfolding ksq_of_def Let_def arith_defs
  by (intro ew2_shape ew_shape kk_shape ll_shape)

lemma ksq_nth:
  assumes "i < nat n" "j < nat n"
  shows "ksq_of n ! i ! j =
     (let s = (k_arr n ! j) ^ 2 + (k_arr n ! i) ^ 2 in if s = 0 then 1 else s)"
proof -
  let ?s = "ew2 (+) (ew (\<lambda>x. x ^ 2) (kk_of n)) (ew (\<lambda>x. x ^ 2) (ll_of n))"
  have sh: "shape2 (nat n) (nat n) ?s"
    by (intro ew2_shape ew_shape kk_shape ll_shape)
  have s: "?s ! i ! j = (k_arr n ! j) ^ 2 + (k_arr n ! i) ^ 2"
    using assms
    by (simp add: ew2_nth [OF ew_shape ew_shape, OF kk_shape ll_shape]
        ew_nth [OF kk_shape] ew_nth [OF ll_shape] kk_nth ll_nth)
  show ?thesis
    unfolding ksq_of_def Let_def arith_defs
    using assms by (simp add: ew2_nth [OF ew_shape sh, OF sh] ew_nth [OF sh] s)
qed

lemma k_arr_zero_iff:
  assumes "i < nat n"
  shows "k_arr n ! i = 0 \<longleftrightarrow> int i = (n + 1) div 2"
proof -
  have "k_arr n ! i = 0 \<longleftrightarrow> (- n) div 2 + int i = 0"
    using dk_pos unfolding nth_k_arr [OF assms] mult_eq_0_iff of_int_eq_0_iff by simp
  also have "\<dots> \<longleftrightarrow> int i = (n + 1) div 2" by presburger
  finally show ?thesis .
qed

lemma k_arr_strict: 
  assumes "i < j" "j < nat n" shows "k_arr n ! i < k_arr n ! j"
  using assms dk_pos by (simp add: nth_k_arr)

lemma k_arr_sorted: "sorted_wrt (<) (k_arr n)"
  by (simp add: sorted_wrt_iff_nth_less length_k_arr k_arr_strict)

lemma k_arr_spacing:
  assumes "Suc i < nat n"
  shows "k_arr n ! Suc i - k_arr n ! i = dk"
proof -
  have "i < nat n" using assms by simp
  then show ?thesis
    using assms by (simp add: nth_k_arr algebra_simps)
qed

lemma k_arr_neg_mem:
  assumes "even n" "0 < i" "i < nat n"
  shows "- (k_arr n ! i) \<in> set (k_arr n)"
proof -
  let ?m = "(- n) div 2 + int i"
  have "- ?m \<in> {(- n) div 2 .. n div 2 - 1}"
    using assms by (auto elim!: evenE)
  then have "real_of_int (- ?m) * dk \<in> set (k_arr n)"
    unfolding set_k_arr by (rule imageI)
  moreover have "real_of_int (- ?m) * dk = - (k_arr n ! i)"
    unfolding nth_k_arr [OF assms(3)] of_int_minus by (rule mult_minus_left)
  ultimately show ?thesis by simp
qed

lemma k_arr_range:
  assumes "even n" "i < nat n"
  shows "- (real_of_int n / 2) \<le> real_of_int ((- n) div 2 + int i)"
    and "real_of_int ((- n) div 2 + int i) < real_of_int n / 2"
proof -
  from assms obtain h where h: "n = 2 * h" by (auto elim: evenE)
  have m: "(- n) div 2 + int i = - h + int i" by (simp add: h)
  show "- (real_of_int n / 2) \<le> real_of_int ((- n) div 2 + int i)"
    unfolding m by (simp add: h)
  have "int i < 2 * h" using assms(2) h by simp
  then have "real_of_int (- h + int i) < real_of_int h" by linarith
  then show "real_of_int ((- n) div 2 + int i) < real_of_int n / 2"
    unfolding m by (simp add: h)
qed

section \<open>The wavenumber arrays\<close>

text \<open>
  C8 (amended). The arrays \<open>k\<close> and \<open>l\<close> are equal and of length \<open>n\<close>; entry \<open>i\<close> is
  the integer \<open>(- n) div 2 + i\<close> scaled by \<open>2 pi / domain\<close>, so consecutive entries differ
  by \<open>2 pi / domain\<close> and the array is strictly increasing. For even \<open>n\<close> the integers lie
  in \<open>[- n/2, n/2)\<close>, and every entry other than the first has its negative in the
  array.
\<close>

theorem wavenumber_arrays:
  "length (k_arr n) = nat n \<and> l_arr n = k_arr n
   \<and> (\<forall>i<nat n. k_arr n ! i = real_of_int ((- n) div 2 + int i) * (2 * pi / domain))
   \<and> (\<forall>i. Suc i < nat n \<longrightarrow> k_arr n ! Suc i - k_arr n ! i = 2 * pi / domain)
   \<and> sorted_wrt (<) (k_arr n)
   \<and> (even n \<longrightarrow> (\<forall>i<nat n.
          - (real_of_int n / 2) \<le> real_of_int ((- n) div 2 + int i)
        \<and> real_of_int ((- n) div 2 + int i) < real_of_int n / 2
        \<and> (0 < i \<longrightarrow> - (k_arr n ! i) \<in> set (k_arr n))))"
proof -
  have d: "2 * pi / domain = dk" by (simp add: dk_def)
  have "\<forall>i<nat n. k_arr n ! i = real_of_int ((- n) div 2 + int i) * dk"
    by (simp add: nth_k_arr)
  moreover have "\<forall>i. Suc i < nat n \<longrightarrow> k_arr n ! Suc i - k_arr n ! i = dk"
    by (simp add: k_arr_spacing)
  moreover have "even n \<longrightarrow> (\<forall>i<nat n.
          - (real_of_int n / 2) \<le> real_of_int ((- n) div 2 + int i)
        \<and> real_of_int ((- n) div 2 + int i) < real_of_int n / 2
        \<and> (0 < i \<longrightarrow> - (k_arr n ! i) \<in> set (k_arr n)))"
    using k_arr_range [of n] k_arr_neg_mem [of n] by blast
  ultimately show ?thesis
    unfolding d using length_k_arr [of n] l_arr_eq [of n] k_arr_sorted [of n] by blast
qed

theorem wavenumber_arrays_witness:
  "length (k_arr 4) = 4 \<and> l_arr 4 = k_arr 4
   \<and> k_arr 4 ! 1 = - 1 * (2 * pi / domain)
   \<and> k_arr 4 ! 2 - k_arr 4 ! 1 = 2 * pi / domain
   \<and> sorted_wrt (<) (k_arr 4)
   \<and> - (k_arr 4 ! 1) \<in> set (k_arr 4)"
proof -
  note w = wavenumber_arrays [of 4]
  from w have a: "\<forall>i<nat 4. k_arr 4 ! i = real_of_int ((- 4) div 2 + int i) * (2 * pi / domain)"
    by (elim conjE)
  from w have b: "\<forall>i. Suc i < nat 4 \<longrightarrow> k_arr 4 ! Suc i - k_arr 4 ! i = 2 * pi / domain"
    by (elim conjE)
  from w have c: "even (4::int) \<longrightarrow> (\<forall>i<nat 4.
          - (real_of_int 4 / 2) \<le> real_of_int ((- 4) div 2 + int i)
        \<and> real_of_int ((- 4) div 2 + int i) < real_of_int 4 / 2
        \<and> (0 < i \<longrightarrow> - (k_arr 4 ! i) \<in> set (k_arr 4)))"
    by (elim conjE)
  from w have d1: "length (k_arr 4) = nat 4" by (elim conjE)
  from w have d2: "l_arr 4 = k_arr 4" by (elim conjE)
  from w have d3: "sorted_wrt (<) (k_arr 4)" by (elim conjE)
  have "k_arr 4 ! 1 = - 1 * (2 * pi / domain)"
    using a [rule_format, of 1] by simp
  moreover have "k_arr 4 ! 2 - k_arr 4 ! 1 = 2 * pi / domain"
    using b [rule_format, of 1] by (simp add: numeral_2_eq_2)
  moreover have "- (k_arr 4 ! 1) \<in> set (k_arr 4)"
    using c [rule_format, of 1] by simp
  ultimately show ?thesis using d1 d2 d3 by simp
qed

text \<open>
  The first entry, \<open>- (n/2) * 2 pi / domain\<close>, has no negative in the array: with the
  script's \<open>N = 128\<close> the array runs from \<open>- 64\<close> to \<open>63\<close> times \<open>2 pi / domain\<close>, so it
  is not symmetric around zero.
\<close>

theorem wavenumber_arrays_not_symmetric:
  "k_arr (N default_params) ! 0 \<in> set (k_arr (N default_params))
   \<and> - (k_arr (N default_params) ! 0) \<notin> set (k_arr (N default_params))"
proof -
  have n: "N default_params = 128" by (simp add: default_params_def)
  have z: "k_arr 128 ! 0 = real_of_int (- 64) * dk"
    by (simp add: nth_k_arr)
  have "k_arr 128 ! 0 \<in> set (k_arr 128)"
    by (rule nth_mem) (simp add: length_k_arr)
  moreover have "- (k_arr 128 ! 0) \<notin> set (k_arr 128)"
  proof
    assume "- (k_arr 128 ! 0) \<in> set (k_arr 128)"
    then obtain m :: int where m: "m \<le> 63" "64 * dk = real_of_int m * dk"
      unfolding z set_k_arr by auto
    from m(2) dk_pos have "real_of_int m = 64" by simp
    then have "m = 64" by linarith
    with m(1) show False by simp
  qed
  ultimately show ?thesis by (simp add: n)
qed

lemma mask_assign_shape:
  "shape2 m n a \<Longrightarrow> shape2 m n msk \<Longrightarrow> shape2 m n (mask_assign a msk v)"
  unfolding mask_assign_def by (intro ew2_shape)

lemma mask_assign_nth:
  "shape2 m n a \<Longrightarrow> shape2 m n msk \<Longrightarrow> i < m \<Longrightarrow> j < n \<Longrightarrow>
     mask_assign a msk v ! i ! j = (if msk ! i ! j then v else a ! i ! j)"
  unfolding mask_assign_def by (simp add: ew2_nth)

lemma anti_alias_shape:
  assumes "shape2 m n (kk g)" "shape2 m n (ll g)" "shape2 m n phit"
  shows "shape2 m n (anti_alias g phit kmax)"
  unfolding anti_alias_def using assms
  by (intro mask_assign_shape ew2_shape ew_shape)

lemma anti_alias_nth:
  assumes "shape2 m n (kk g)" "shape2 m n (ll g)" "shape2 m n phit" "i < m" "j < n"
  shows "anti_alias g phit kmax ! i ! j =
     (if \<bar>kk g ! i ! j\<bar> \<ge> kmax \<or> \<bar>ll g ! i ! j\<bar> \<ge> kmax then 0 else phit ! i ! j)"
proof -
  let ?a = "ew (\<lambda>x. \<bar>x\<bar> \<ge> kmax) (kk g)" and ?b = "ew (\<lambda>x. \<bar>x\<bar> \<ge> kmax) (ll g)"
  have sa: "shape2 m n ?a" and sb: "shape2 m n ?b"
    using assms by (simp_all add: ew_shape)
  have "ew2 (\<or>) ?a ?b ! i ! j \<longleftrightarrow> \<bar>kk g ! i ! j\<bar> \<ge> kmax \<or> \<bar>ll g ! i ! j\<bar> \<ge> kmax"
    using assms by (simp add: ew2_nth [OF sa sb] ew_nth [OF assms(1)] ew_nth [OF assms(2)])
  then show ?thesis
    unfolding anti_alias_def
    using assms by (simp add: mask_assign_nth [OF assms(3) ew2_shape [OF sa sb]])
qed

text \<open>
  C3. For every grid of shape \<open>(m, n)\<close>, every spectral field of that shape and every
  cutoff, \<^verbatim>\<open>anti_alias\<close> returns a field of the same shape whose coefficient is zero
  wherever \<open>|kk| \<ge> k_max\<close> or \<open>|ll| \<ge> k_max\<close> and is the coefficient of the argument
  everywhere else.
\<close>

theorem anti_alias_mask:
  assumes "shape2 m n (kk g)" "shape2 m n (ll g)" "shape2 m n phit"
  shows "shape2 m n (anti_alias g phit kmax)
    \<and> (\<forall>i<m. \<forall>j<n.
         ((\<bar>kk g ! i ! j\<bar> \<ge> kmax \<or> \<bar>ll g ! i ! j\<bar> \<ge> kmax)
            \<longrightarrow> anti_alias g phit kmax ! i ! j = 0)
       \<and> ((\<bar>kk g ! i ! j\<bar> < kmax \<and> \<bar>ll g ! i ! j\<bar> < kmax)
            \<longrightarrow> anti_alias g phit kmax ! i ! j = phit ! i ! j))"
  using assms by (simp add: anti_alias_shape anti_alias_nth)

lemma grid_of_simps:
  "kk (grid_of p) = kk_of (N p)" "ll (grid_of p) = ll_of (N p)"
  "ksq (grid_of p) = ksq_of (N p)" "rksq (grid_of p) = rksq_of (N p)"
  "ik (grid_of p) = ik_of (N p)" "il (grid_of p) = il_of (N p)"
  "del4 (grid_of p) = del4_of (N p) (tau p)" "k_max (grid_of p) = k_max_of (AA_FAC p)"
  "dx (grid_of p) = dx_of (N p)"
  by (simp_all add: grid_of_def Let_def)

theorem anti_alias_mask_witness:
  "shape2 2 2 (anti_alias (grid_of (default_params\<lparr>N := 2\<rparr>)) [[1, 2], [3, 4]] 1)
   \<and> anti_alias (grid_of (default_params\<lparr>N := 2\<rparr>)) [[1, 2], [3, 4]] 1 ! 0 ! 0 = 0
   \<and> anti_alias (grid_of (default_params\<lparr>N := 2\<rparr>)) [[1, 2], [3, 4]] 1 ! 1 ! 1 = 4"
proof -
  let ?g = "grid_of (default_params\<lparr>N := 2\<rparr>)"
  let ?f = "[[1, 2], [3, 4 :: complex]]"
  have k: "shape2 2 2 (kk ?g)" "shape2 2 2 (ll ?g)"
    using kk_shape [of 2] ll_shape [of 2] by (simp_all add: grid_of_simps)
  have f: "shape2 2 2 ?f" by (simp add: shape2_def)
  note w = anti_alias_mask [OF k f, of 1]
  have v: "kk ?g ! 0 ! 0 = - dk" "kk ?g ! 1 ! 1 = 0" "ll ?g ! 1 ! 1 = 0"
    by (simp_all add: grid_of_simps kk_nth ll_nth nth_k_arr)
  have d: "1 \<le> dk" using pi_ge_two by (simp add: dk_def domain_def)
  from w have "anti_alias ?g ?f 1 ! 0 ! 0 = 0"
    using v d by simp
  moreover from w have "anti_alias ?g ?f 1 ! 1 ! 1 = ?f ! 1 ! 1"
    using v by simp
  ultimately show ?thesis using w by simp
qed

lemma k_arr_abs_le:
  assumes "i < nat n"
  shows "\<bar>k_arr n ! i\<bar> \<le> real_of_int n * dk"
proof -
  have "\<bar>(- n) div 2 + int i\<bar> \<le> n" using assms by linarith
  then have "real_of_int \<bar>(- n) div 2 + int i\<bar> \<le> real_of_int n" by linarith
  then have "\<bar>real_of_int ((- n) div 2 + int i)\<bar> * dk \<le> real_of_int n * dk"
    using dk_pos by (simp add: mult_right_mono)
  then show ?thesis using dk_pos by (simp add: nth_k_arr [OF assms] abs_mult)
qed

lemma k_arr_abs_less:
  assumes "i < nat n"
  shows "\<bar>k_arr n ! i\<bar> < real_of_int n * 2 * dk"
proof -
  have "0 < real_of_int n * dk" using assms dk_pos by simp
  then show ?thesis using k_arr_abs_le [OF assms] by simp
qed

text \<open>
  C7. The grid's cutoff is \<open>k_max = AA_FAC * 2 * (2 pi / domain)\<close>. With \<open>AA_FAC = 0\<close>,
  \<^verbatim>\<open>anti_alias\<close> with the grid's cutoff turns every field of the grid's shape into the zero
  field; with \<open>AA_FAC = N\<close> it returns the field unchanged.
\<close>

theorem anti_alias_extremes:
  assumes "shape2 (nat (N p)) (nat (N p)) phit"
  shows "k_max (grid_of p) = AA_FAC p * 2 * (2 * pi / domain)
    \<and> (AA_FAC p = 0 \<longrightarrow>
          anti_alias (grid_of p) phit (k_max (grid_of p)) = zeros (nat (N p)) (nat (N p)))
    \<and> (AA_FAC p = real_of_int (N p) \<longrightarrow>
          anti_alias (grid_of p) phit (k_max (grid_of p)) = phit)"
proof (intro conjI impI)
  let ?n = "nat (N p)" and ?g = "grid_of p"
  have k: "shape2 ?n ?n (kk ?g)" and l: "shape2 ?n ?n (ll ?g)"
    by (simp_all add: grid_of_simps kk_shape ll_shape)
  note sh = anti_alias_shape [OF k l assms]
  note nth = anti_alias_nth [OF k l assms]
  show "k_max ?g = AA_FAC p * 2 * (2 * pi / domain)"
    by (simp add: grid_of_simps k_max_of_def dk_def)
  {
    assume "AA_FAC p = 0"
    then have z: "k_max ?g = 0" by (simp add: grid_of_simps k_max_of_def)
    show "anti_alias ?g phit (k_max ?g) = zeros ?n ?n"
      by (rule array_eqI [OF sh zeros_shape]) (simp add: nth z zeros_nth)
  }
  {
    assume "AA_FAC p = real_of_int (N p)"
    then have z: "k_max ?g = real_of_int (N p) * 2 * dk"
      by (simp add: grid_of_simps k_max_of_def)
    show "anti_alias ?g phit (k_max ?g) = phit"
    proof (rule array_eqI [OF sh assms])
      fix i j assume ij: "i < ?n" "j < ?n"
      have "\<bar>kk ?g ! i ! j\<bar> < k_max ?g" "\<bar>ll ?g ! i ! j\<bar> < k_max ?g"
        using ij k_arr_abs_less [of i "N p"] k_arr_abs_less [of j "N p"]
        by (simp_all add: z) (simp_all add: grid_of_simps kk_nth ll_nth)
      then show "anti_alias ?g phit (k_max ?g) ! i ! j = phit ! i ! j"
        using ij by (simp add: nth)
    qed
  }
qed

theorem anti_alias_extremes_witness:
  "anti_alias (grid_of (default_params\<lparr>N := 2, AA_FAC := 0\<rparr>)) [[1, 2], [3, 4]]
      (k_max (grid_of (default_params\<lparr>N := 2, AA_FAC := 0\<rparr>))) = [[0, 0], [0, 0]]
   \<and> anti_alias (grid_of (default_params\<lparr>N := 2, AA_FAC := 2\<rparr>)) [[1, 2], [3, 4]]
      (k_max (grid_of (default_params\<lparr>N := 2, AA_FAC := 2\<rparr>))) = [[1, 2], [3, 4]]"
proof -
  let ?f = "[[1, 2], [3, 4 :: complex]]"
  have f: "shape2 2 2 ?f" by (simp add: shape2_def)
  have z: "zeros 2 2 = [[0, 0], [0, 0 :: complex]]"
    by (simp add: zeros_def numeral_2_eq_2)
  show ?thesis
    using anti_alias_extremes [THEN conjunct2, of "default_params\<lparr>N := 2, AA_FAC := 0\<rparr>" ?f]
      anti_alias_extremes [THEN conjunct2, of "default_params\<lparr>N := 2, AA_FAC := 2\<rparr>" ?f] f z
    by simp
qed

lemma ksq_pos:
  assumes "i < nat n" "j < nat n"
  shows "0 < ksq_of n ! i ! j"
proof -
  let ?s = "(k_arr n ! j) ^ 2 + (k_arr n ! i) ^ 2"
  have "0 \<le> ?s" by simp
  then have "0 < (if ?s = 0 then 1 else ?s)" by (simp add: less_le)
  then show ?thesis unfolding ksq_nth [OF assms] Let_def .
qed

lemma rksq_shape: "shape2 (nat n) (nat n) (rksq_of n)"
  unfolding rksq_of_def by (intro ew_shape ksq_shape)

lemma rksq_nth:
  "i < nat n \<Longrightarrow> j < nat n \<Longrightarrow> rksq_of n ! i ! j = 1 / ksq_of n ! i ! j"
  unfolding rksq_of_def by (simp add: ew_nth [OF ksq_shape])

lemma poisson_shape:
  assumes "shape2 m n (rksq g)" "shape2 m n w"
  shows "shape2 m n (poisson g w)"
  unfolding poisson_def arith_defs using assms by (intro ew2_shape ew_shape)

lemma poisson_nth:
  assumes "shape2 m n (rksq g)" "shape2 m n w" "i < m" "j < n"
  shows "poisson g w ! i ! j = complex_of_real (- (rksq g ! i ! j)) * w ! i ! j"
  unfolding poisson_def arith_defs using assms
  by (simp add: ew2_nth [OF ew_shape [OF ew_shape]] ew_nth [OF ew_shape] ew_nth)

lemma zero_cell:
  assumes "2 \<le> n"
  shows "nat ((n + 1) div 2) < nat n"
  using assms by linarith

lemma zero_cell_iff:
  assumes "i < nat n" "j < nat n"
  shows "kk_of n ! i ! j = 0 \<and> ll_of n ! i ! j = 0
     \<longleftrightarrow> i = nat ((n + 1) div 2) \<and> j = nat ((n + 1) div 2)"
proof -
  have "\<And>i. i < nat n \<Longrightarrow> int i = (n + 1) div 2 \<longleftrightarrow> i = nat ((n + 1) div 2)"
    by linarith
  then show ?thesis
    using assms by (simp add: kk_nth ll_nth k_arr_zero_iff) blast
qed

lemma ksq_zero_cell:
  assumes "2 \<le> n"
  shows "ksq_of n ! nat ((n + 1) div 2) ! nat ((n + 1) div 2) = 1"
proof -
  let ?c = "nat ((n + 1) div 2)"
  have c: "?c < nat n" using assms by (rule zero_cell)
  have "k_arr n ! ?c = 0" using c by (simp add: k_arr_zero_iff)
  then show ?thesis using c by (simp add: ksq_nth)
qed

lemma ksq_other_cell:
  assumes "i < nat n" "j < nat n" "\<not> (kk_of n ! i ! j = 0 \<and> ll_of n ! i ! j = 0)"
  shows "ksq_of n ! i ! j = (kk_of n ! i ! j) ^ 2 + (ll_of n ! i ! j) ^ 2"
  using assms by (auto simp add: ksq_nth kk_nth ll_nth Let_def)

lemma dk_ge_one: "1 \<le> dk"
  using pi_ge_two by (simp add: dk_def domain_def)

lemma k_arr_sq_ge:
  assumes "i < nat n" "k_arr n ! i \<noteq> 0"
  shows "1 \<le> (k_arr n ! i) ^ 2"
proof -
  let ?m = "(- n) div 2 + int i"
  have k: "k_arr n ! i = real_of_int ?m * dk" using assms(1) by (rule nth_k_arr)
  with assms(2) have "?m \<noteq> 0" by auto
  then have "1 \<le> \<bar>?m\<bar>" by linarith
  then have "1 \<le> \<bar>real_of_int ?m\<bar>" by linarith
  then have "1 * 1 \<le> \<bar>real_of_int ?m\<bar> * dk"
    using dk_ge_one by (intro mult_mono) simp_all
  then have "1 \<le> \<bar>k_arr n ! i\<bar>" using dk_pos by (simp add: k abs_mult)
  then have "1 ^ 2 \<le> \<bar>k_arr n ! i\<bar> ^ 2" by (intro power_mono) simp_all
  then show ?thesis by simp
qed

lemma ksq_ge_one:
  assumes "i < nat n" "j < nat n"
  shows "1 \<le> ksq_of n ! i ! j"
proof (cases "k_arr n ! j = 0 \<and> k_arr n ! i = 0")
  case True
  then show ?thesis unfolding ksq_nth [OF assms] by simp
next
  case False
  then have "1 \<le> (k_arr n ! j) ^ 2 + (k_arr n ! i) ^ 2"
  proof (cases "k_arr n ! j = 0")
    case True
    with False have "k_arr n ! i \<noteq> 0" by simp
    then have "1 \<le> (k_arr n ! i) ^ 2" using assms(1) by (intro k_arr_sq_ge)
    then show ?thesis using True by simp
  next
    case False
    then have "1 \<le> (k_arr n ! j) ^ 2" using assms(2) by (intro k_arr_sq_ge)
    moreover have "0 \<le> (k_arr n ! i) ^ 2" by simp
    ultimately show ?thesis by linarith
  qed
  then show ?thesis unfolding ksq_nth [OF assms] Let_def by simp
qed

text \<open>
  C5 (amended). The zero-wavenumber cell \<open>kk = ll = 0\<close> can only be the cell \<open>(c, c)\<close> with
  \<open>c = (N + 1) div 2\<close>, and that cell lies on the mesh exactly when \<open>N \<ge> 2\<close>: there is
  exactly one such cell for \<open>N \<ge> 2\<close> and none for \<open>N = 1\<close>. Where it exists, \<open>ksq\<close> is set
  to \<open>1\<close> there and the Poisson solve gives \<open>- zt\<close>. At every resolution and at every
  cell: \<open>ksq\<close> is \<open>kk\<^sup>2 + ll\<^sup>2\<close> away from \<open>(c, c)\<close>; \<open>ksq \<ge> 1\<close>, so no entry is zero and
  the reciprocal divides by no zero; \<open>rksq\<close> is the true reciprocal and lies in \<open>(0, 1]\<close>;
  and the Poisson solve gives \<open>psit = - zt / ksq\<close>, whose modulus is at most that of
  \<open>zt\<close>, so a finite spectral vorticity gives a finite streamfunction at every mode.
\<close>

theorem zero_mode_safety:
  assumes "shape2 (nat (N p)) (nat (N p)) w"
  shows "(let g = grid_of p; n = nat (N p); c = nat ((N p + 1) div 2) in
      (c < n \<longleftrightarrow> 2 \<le> N p)
    \<and> (\<forall>i<n. \<forall>j<n. (kk g ! i ! j = 0 \<and> ll g ! i ! j = 0) \<longleftrightarrow> (i = c \<and> j = c))
    \<and> (c < n \<longrightarrow> ksq g ! c ! c = 1 \<and> poisson g w ! c ! c = - (w ! c ! c))
    \<and> (\<forall>i<n. \<forall>j<n.
          (\<not> (i = c \<and> j = c) \<longrightarrow> ksq g ! i ! j = (kk g ! i ! j) ^ 2 + (ll g ! i ! j) ^ 2)
        \<and> 1 \<le> ksq g ! i ! j
        \<and> rksq g ! i ! j * ksq g ! i ! j = 1
        \<and> 0 < rksq g ! i ! j \<and> rksq g ! i ! j \<le> 1
        \<and> poisson g w ! i ! j = - (w ! i ! j) / complex_of_real (ksq g ! i ! j)
        \<and> cmod (poisson g w ! i ! j) \<le> cmod (w ! i ! j)))"
proof -
  let ?n = "N p" and ?g = "grid_of p"
  let ?c = "nat ((?n + 1) div 2)"
  have c: "?c < nat ?n \<longleftrightarrow> 2 \<le> ?n" by linarith
  have r: "shape2 (nat ?n) (nat ?n) (rksq ?g)" by (simp add: grid_of_simps rksq_shape)
  have each: "(\<not> (i = ?c \<and> j = ?c) \<longrightarrow> ksq ?g ! i ! j = (kk ?g ! i ! j) ^ 2 + (ll ?g ! i ! j) ^ 2)
        \<and> 1 \<le> ksq ?g ! i ! j
        \<and> rksq ?g ! i ! j * ksq ?g ! i ! j = 1
        \<and> 0 < rksq ?g ! i ! j \<and> rksq ?g ! i ! j \<le> 1
        \<and> poisson ?g w ! i ! j = - (w ! i ! j) / complex_of_real (ksq ?g ! i ! j)
        \<and> cmod (poisson ?g w ! i ! j) \<le> cmod (w ! i ! j)"
    if ij: "i < nat ?n" "j < nat ?n" for i j
  proof -
    define q where "q = ksq_of ?n ! i ! j"
    have ge: "1 \<le> q" unfolding q_def using ij by (rule ksq_ge_one)
    then have pos: "0 < q" by linarith
    have rq: "rksq_of ?n ! i ! j = 1 / q" unfolding q_def using ij by (rule rksq_nth)
    have a: "\<not> (i = ?c \<and> j = ?c) \<longrightarrow>
        ksq_of ?n ! i ! j = (kk_of ?n ! i ! j) ^ 2 + (ll_of ?n ! i ! j) ^ 2"
      using ij ksq_other_cell [OF ij] zero_cell_iff [OF ij] by blast
    have b: "rksq_of ?n ! i ! j * q = 1" using pos by (simp add: rq)
    have d: "0 < rksq_of ?n ! i ! j" using pos by (simp add: rq)
    have e: "rksq_of ?n ! i ! j \<le> 1" using ge pos by (simp add: rq)
    have f: "poisson ?g w ! i ! j = - (w ! i ! j) / complex_of_real q"
      using ij pos by (simp add: poisson_nth [OF r assms] grid_of_simps rq)
    have "cmod (- (w ! i ! j) / complex_of_real q) = cmod (w ! i ! j) / q"
      using pos by (simp add: norm_divide)
    also have "\<dots> \<le> cmod (w ! i ! j) / 1"
      using ge by (intro divide_left_mono) simp_all
    finally have h: "cmod (poisson ?g w ! i ! j) \<le> cmod (w ! i ! j)"
      by (simp add: f)
    show ?thesis
      using a b d e f h ge unfolding q_def by (simp add: grid_of_simps)
  qed
  have zc: "(kk ?g ! i ! j = 0 \<and> ll ?g ! i ! j = 0) \<longleftrightarrow> (i = ?c \<and> j = ?c)"
    if "i < nat ?n" "j < nat ?n" for i j
    using zero_cell_iff [OF that] by (simp add: grid_of_simps)
  have cell: "ksq ?g ! ?c ! ?c = 1 \<and> poisson ?g w ! ?c ! ?c = - (w ! ?c ! ?c)"
    if cn: "?c < nat ?n"
  proof -
    have "2 \<le> ?n" using cn c by simp
    then have k: "ksq ?g ! ?c ! ?c = 1" by (simp add: grid_of_simps ksq_zero_cell)
    then show ?thesis using each [OF cn cn] by simp
  qed
  show ?thesis
    unfolding Let_def using c cell each zc by blast
qed

theorem zero_mode_safety_witness:
  "kk (grid_of (default_params\<lparr>N := 2\<rparr>)) ! 1 ! 1 = 0
   \<and> ll (grid_of (default_params\<lparr>N := 2\<rparr>)) ! 1 ! 1 = 0
   \<and> ksq (grid_of (default_params\<lparr>N := 2\<rparr>)) ! 1 ! 1 = 1
   \<and> poisson (grid_of (default_params\<lparr>N := 2\<rparr>)) [[1, 2], [3, 4]] ! 1 ! 1 = - 4
   \<and> 1 \<le> ksq (grid_of (default_params\<lparr>N := 2\<rparr>)) ! 0 ! 0
   \<and> rksq (grid_of (default_params\<lparr>N := 2\<rparr>)) ! 0 ! 0
        * ksq (grid_of (default_params\<lparr>N := 2\<rparr>)) ! 0 ! 0 = 1
   \<and> rksq (grid_of (default_params\<lparr>N := 2\<rparr>)) ! 0 ! 0 \<le> 1
   \<and> cmod (poisson (grid_of (default_params\<lparr>N := 2\<rparr>)) [[1, 2], [3, 4]] ! 0 ! 0) \<le> 1
   \<and> 1 \<le> ksq (grid_of (default_params\<lparr>N := 1\<rparr>)) ! 0 ! 0
   \<and> cmod (poisson (grid_of (default_params\<lparr>N := 1\<rparr>)) [[5]] ! 0 ! 0) \<le> 5"
proof -
  let ?p = "default_params\<lparr>N := 2\<rparr>"
  let ?f = "[[1, 2], [3, 4 :: complex]]"
  let ?q = "default_params\<lparr>N := 1\<rparr>"
  let ?h = "[[5 :: complex]]"
  have n: "nat (N ?p) = 2" by simp
  have f: "shape2 (nat (N ?p)) (nat (N ?p)) ?f" by (simp add: shape2_def)
  have c: "nat ((N ?p + 1) div 2) = 1" by simp
  note w = zero_mode_safety [OF f, unfolded Let_def c n]
  from w have a: "\<forall>i<2. \<forall>j<2.
      (kk (grid_of ?p) ! i ! j = 0 \<and> ll (grid_of ?p) ! i ! j = 0) \<longleftrightarrow> (i = 1 \<and> j = 1)"
    by (elim conjE)
  from w have b: "(1::nat) < 2 \<longrightarrow>
      ksq (grid_of ?p) ! 1 ! 1 = 1 \<and> poisson (grid_of ?p) ?f ! 1 ! 1 = - (?f ! 1 ! 1)"
    by (elim conjE)
  from w have d: "\<forall>i<2. \<forall>j<2.
          (\<not> (i = 1 \<and> j = 1) \<longrightarrow>
             ksq (grid_of ?p) ! i ! j = (kk (grid_of ?p) ! i ! j) ^ 2 + (ll (grid_of ?p) ! i ! j) ^ 2)
        \<and> 1 \<le> ksq (grid_of ?p) ! i ! j
        \<and> rksq (grid_of ?p) ! i ! j * ksq (grid_of ?p) ! i ! j = 1
        \<and> 0 < rksq (grid_of ?p) ! i ! j \<and> rksq (grid_of ?p) ! i ! j \<le> 1
        \<and> poisson (grid_of ?p) ?f ! i ! j = - (?f ! i ! j) / complex_of_real (ksq (grid_of ?p) ! i ! j)
        \<and> cmod (poisson (grid_of ?p) ?f ! i ! j) \<le> cmod (?f ! i ! j)"
    by (elim conjE)
  have m: "nat (N ?q) = 1" by simp
  have g: "shape2 (nat (N ?q)) (nat (N ?q)) ?h" by (simp add: shape2_def)
  note v = zero_mode_safety [OF g, unfolded Let_def m]
  from v have e: "\<forall>i<1. \<forall>j<1.
          (\<not> (i = nat ((N ?q + 1) div 2) \<and> j = nat ((N ?q + 1) div 2)) \<longrightarrow>
             ksq (grid_of ?q) ! i ! j = (kk (grid_of ?q) ! i ! j) ^ 2 + (ll (grid_of ?q) ! i ! j) ^ 2)
        \<and> 1 \<le> ksq (grid_of ?q) ! i ! j
        \<and> rksq (grid_of ?q) ! i ! j * ksq (grid_of ?q) ! i ! j = 1
        \<and> 0 < rksq (grid_of ?q) ! i ! j \<and> rksq (grid_of ?q) ! i ! j \<le> 1
        \<and> poisson (grid_of ?q) ?h ! i ! j = - (?h ! i ! j) / complex_of_real (ksq (grid_of ?q) ! i ! j)
        \<and> cmod (poisson (grid_of ?q) ?h ! i ! j) \<le> cmod (?h ! i ! j)"
    by (elim conjE)
  have z2: "(0::nat) < 2" and z1: "(0::nat) < 1" by simp_all
  have "kk (grid_of ?p) ! 1 ! 1 = 0 \<and> ll (grid_of ?p) ! 1 ! 1 = 0"
    using a [rule_format, of 1 1] by simp
  moreover have "ksq (grid_of ?p) ! 1 ! 1 = 1 \<and> poisson (grid_of ?p) ?f ! 1 ! 1 = - 4"
    using b by simp
  moreover note d0 = d [rule_format, OF z2 z2]
  moreover from d0 have "1 \<le> ksq (grid_of ?p) ! 0 ! 0" by (elim conjE)
  moreover from d0 have "rksq (grid_of ?p) ! 0 ! 0 * ksq (grid_of ?p) ! 0 ! 0 = 1"
    by (elim conjE)
  moreover from d0 have "rksq (grid_of ?p) ! 0 ! 0 \<le> 1" by (elim conjE)
  moreover have "cmod (poisson (grid_of ?p) ?f ! 0 ! 0) \<le> 1"
  proof -
    from d0 have "cmod (poisson (grid_of ?p) ?f ! 0 ! 0) \<le> cmod (?f ! 0 ! 0)"
      by (elim conjE)
    then show ?thesis by simp
  qed
  moreover note e0 = e [rule_format, OF z1 z1]
  moreover from e0 have "1 \<le> ksq (grid_of ?q) ! 0 ! 0" by (elim conjE)
  moreover have "cmod (poisson (grid_of ?q) ?h ! 0 ! 0) \<le> 5"
  proof -
    from e0 have "cmod (poisson (grid_of ?q) ?h ! 0 ! 0) \<le> cmod (?h ! 0 ! 0)"
      by (elim conjE)
    then show ?thesis by simp
  qed
  ultimately show ?thesis by blast
qed

text \<open>
  With \<open>N = 1\<close> the mesh is the single cell \<open>kk = - 2 pi / domain\<close>
  (\<^verbatim>\<open>np.arange(-1, 0)\<close>, since \<^verbatim>\<open>-1/2\<close> is \<open>- 1\<close> in Python 2): no cell has \<open>kk = ll = 0\<close>.
\<close>

theorem no_zero_mode_at_resolution_one:
  "kk (grid_of (default_params\<lparr>N := 1\<rparr>)) = [[- (2 * pi / domain)]]
   \<and> - (2 * pi / domain) \<noteq> 0"
proof -
  have "arange ((- 1) div 2) (1 div 2) = [- 1]"
    by (simp add: arange_def upto.simps)
  then have "k_arr 1 = [- dk]" "l_arr 1 = [- dk]"
    by (simp_all add: k_arr_def l_arr_def)
  then have "kk_of 1 = [[- dk]]"
    by (simp add: kk_of_def meshgrid_def)
  then show ?thesis using dk_pos by (simp add: grid_of_simps dk_def domain_def)
qed

text \<open>
  C9. If the configured name \<open>IC\<close> is not a key of the registry, the script raises an
  exception during its setup (ZeroDivisionError or ValueError for a resolution that is
  not positive, else the NameError of line 240), returns no state, and the driver makes
  no call of \<^verbatim>\<open>integrate\<close>.
\<close>

theorem unknown_initial_condition:
  assumes "IC p \<notin> dom ics"
  shows "script_setup ics p =
           Inl (if N p = 0 then ZeroDivisionError else if N p < 0 then ValueError else NameError)
    \<and> run ics p fuel =
           (0, Inl (if N p = 0 then ZeroDivisionError else if N p < 0 then ValueError
                    else NameError))"
proof -
  from assms have "ics (IC p) = None" by (simp add: domIff)
  then have s: "script_setup ics p =
      Inl (if N p = 0 then ZeroDivisionError else if N p < 0 then ValueError else NameError)"
    by (simp add: script_setup_def Let_def)
  then show ?thesis by (simp add: run_def)
qed

theorem unknown_initial_condition_witness:
  "script_setup (ICS []) (default_params\<lparr>IC := ''vortex''\<rparr>) = Inl NameError
   \<and> run (ICS []) (default_params\<lparr>IC := ''vortex''\<rparr>) 10 = (0, Inl NameError)"
proof -
  have "IC (default_params\<lparr>IC := ''vortex''\<rparr>) \<notin> dom (ICS [])"
    by (simp add: ICS_def)
  from unknown_initial_condition [OF this, of 10] show ?thesis
    by (simp add: default_params_def)
qed

section \<open>The transforms\<close>

lemma cis_eq_one_imp:
  assumes "cis t = 1"
  shows "\<exists>q::int. t = real_of_int q * (2 * pi)"
proof -
  from assms have "cos t = 1" by (simp add: complex_eq_iff)
  then obtain q :: int where "t = real_of_int q * 2 * pi"
    unfolding cos_one_2pi_int by blast
  then show ?thesis by (intro exI [of _ q]) simp
qed

lemma root_of_unity_sum:
  fixes d :: int
  assumes "0 < n" "\<not> int n dvd d"
  shows "(\<Sum>j<n. cis (2 * pi * (real j * real_of_int d / real n))) = 0"
proof -
  define x where "x = cis (2 * pi * real_of_int d / real n)"
  have pw: "cis (2 * pi * (real j * real_of_int d / real n)) = x ^ j" for j
    unfolding x_def DeMoivre by (simp add: algebra_simps)
  have "x ^ n = cis (2 * pi * real_of_int d)"
    unfolding x_def DeMoivre using assms(1) by simp
  then have xn: "x ^ n = 1" by simp
  have x1: "x \<noteq> 1"
  proof
    assume "x = 1"
    then obtain q :: int where "2 * pi * real_of_int d / real n = real_of_int q * (2 * pi)"
      unfolding x_def using cis_eq_one_imp by blast
    then have "real_of_int d = real_of_int q * real n"
      using assms(1) by (simp add: field_simps)
    then have "real_of_int d = real_of_int (q * int n)" by simp
    then have "d = q * int n" by (simp only: of_int_eq_iff)
    with assms(2) show False by simp
  qed
  have "(\<Sum>j<n. x ^ j) = (1 - x ^ n) / (1 - x)"
    using x1 by (simp add: sum_gp_strict)
  moreover have "(\<Sum>j<n. cis (2 * pi * (real j * real_of_int d / real n))) = (\<Sum>j<n. x ^ j)"
    by (intro sum.cong refl pw)
  ultimately show ?thesis by (simp add: xn)
qed

lemma dft_orthogonal:
  assumes "m < M" "m' < M"
  shows "(\<Sum>k<M. cis (- (2 * pi * (real m' * real k / real M)))
                * cis (2 * pi * (real m * real k / real M)))
         = (if m' = m then of_nat M else 0)"
proof -
  have e: "cis (- (2 * pi * (real m' * real k / real M))) * cis (2 * pi * (real m * real k / real M))
      = cis (2 * pi * (real k * real_of_int (int m - int m') / real M))" for k
    unfolding cis_mult
    by (rule arg_cong [of _ _ cis])
      (simp add: diff_divide_distrib right_diff_distrib left_diff_distrib mult.commute)
  show ?thesis
  proof (cases "m' = m")
    case True
    then show ?thesis unfolding e by simp
  next
    case False
    have "\<not> int M dvd (int m - int m')"
    proof
      assume "int M dvd (int m - int m')"
      then have "int m mod int M = int m' mod int M"
        by (simp add: mod_eq_dvd_iff)
      then show False using assms False by simp
    qed
    then have "(\<Sum>k<M. cis (2 * pi * (real k * real_of_int (int m - int m') / real M))) = 0"
      using assms by (intro root_of_unity_sum) simp_all
    then show ?thesis using False unfolding e by simp
  qed
qed

lemma dft2_inverse:
  fixes a :: "nat \<Rightarrow> nat \<Rightarrow> complex"
  assumes "m < M" "j < L"
  shows "(\<Sum>k<M. \<Sum>l<L.
            (\<Sum>m'<M. \<Sum>j'<L. a m' j' *
                cis (- (2 * pi * (real m' * real k / real M + real j' * real l / real L))))
            * cis (2 * pi * (real m * real k / real M + real j * real l / real L)))
         = of_nat (M * L) * a m j"
proof -
  define P where "P m' k = cis (- (2 * pi * (real m' * real k / real M)))
                          * cis (2 * pi * (real m * real k / real M))" for m' k
  define Q where "Q j' l = cis (- (2 * pi * (real j' * real l / real L)))
                          * cis (2 * pi * (real j * real l / real L))" for j' l
  have t: "a m' j' * cis (- (2 * pi * (real m' * real k / real M + real j' * real l / real L)))
             * cis (2 * pi * (real m * real k / real M + real j * real l / real L))
           = a m' j' * P m' k * Q j' l" for m' j' k l
  proof -
    have "cis (- (2 * pi * (real m' * real k / real M + real j' * real l / real L)))
          = cis (- (2 * pi * (real m' * real k / real M))) * cis (- (2 * pi * (real j' * real l / real L)))"
      unfolding cis_mult by (rule arg_cong [of _ _ cis]) (simp add: algebra_simps)
    moreover have "cis (2 * pi * (real m * real k / real M + real j * real l / real L))
          = cis (2 * pi * (real m * real k / real M)) * cis (2 * pi * (real j * real l / real L))"
      unfolding cis_mult by (rule arg_cong [of _ _ cis]) (simp add: algebra_simps)
    ultimately show ?thesis by (simp add: P_def Q_def)
  qed
  have in1: "(\<Sum>j'<L. if j' = j then c else 0) = c" for c :: complex
    using assms(2) by simp
  have in2: "(\<Sum>m'<M. if m' = m then c else 0) = c" for c :: complex
    using assms(1) by simp
  have Ps: "(\<Sum>k<M. P m' k) = (if m' = m then of_nat M else 0)" if "m' < M" for m'
    unfolding P_def using assms(1) that by (rule dft_orthogonal)
  have Qs: "(\<Sum>l<L. Q j' l) = (if j' = j then of_nat L else 0)" if "j' < L" for j'
    unfolding Q_def using assms(2) that by (rule dft_orthogonal)
  have "(\<Sum>k<M. \<Sum>l<L.
            (\<Sum>m'<M. \<Sum>j'<L. a m' j' *
                cis (- (2 * pi * (real m' * real k / real M + real j' * real l / real L))))
            * cis (2 * pi * (real m * real k / real M + real j * real l / real L)))
      = (\<Sum>k<M. \<Sum>l<L. \<Sum>m'<M. \<Sum>j'<L. a m' j' * P m' k * Q j' l)"
    by (simp add: sum_distrib_right t)
  also have "\<dots> = (\<Sum>k<M. \<Sum>m'<M. \<Sum>l<L. \<Sum>j'<L. a m' j' * P m' k * Q j' l)"
    by (intro sum.cong refl sum.swap)
  also have "\<dots> = (\<Sum>m'<M. \<Sum>k<M. \<Sum>l<L. \<Sum>j'<L. a m' j' * P m' k * Q j' l)"
    by (rule sum.swap)
  also have "\<dots> = (\<Sum>m'<M. \<Sum>k<M. \<Sum>j'<L. \<Sum>l<L. a m' j' * P m' k * Q j' l)"
    by (intro sum.cong refl sum.swap)
  also have "\<dots> = (\<Sum>m'<M. \<Sum>j'<L. \<Sum>k<M. \<Sum>l<L. a m' j' * P m' k * Q j' l)"
    by (intro sum.cong refl sum.swap)
  also have "\<dots> = (\<Sum>m'<M. \<Sum>j'<L. a m' j' * ((\<Sum>k<M. P m' k) * (\<Sum>l<L. Q j' l)))"
    by (simp add: sum_distrib_left [symmetric] sum_distrib_right [symmetric] mult.assoc)
  also have "\<dots> = (\<Sum>m'<M. \<Sum>j'<L. a m' j' *
        ((if m' = m then of_nat M else 0) * (if j' = j then of_nat L else 0)))"
    by (rule sum.cong [OF refl], rule sum.cong [OF refl]) (simp add: Ps Qs)
  also have "\<dots> = (\<Sum>m'<M. \<Sum>j'<L.
        if m' = m then (if j' = j then of_nat (M * L) * a m j else 0) else 0)"
    by (rule sum.cong [OF refl], rule sum.cong [OF refl]) simp
  also have "\<dots> = (\<Sum>m'<M. if m' = m then of_nat (M * L) * a m j else 0)"
    by (rule sum.cong [OF refl]) (simp add: in1)
  also have "\<dots> = of_nat (M * L) * a m j"
    by (rule in2)
  finally show ?thesis .
qed

lemma ncols_shape: "shape2 m n a \<Longrightarrow> 0 < m \<Longrightarrow> ncols a = n"
  by (cases a) (auto simp: shape2_def ncols_def)

lemma fftn_shape:
  assumes "shape2 m n a"
  shows "shape2 m n (fftn a)"
proof (cases "m = 0")
  case True
  then show ?thesis using assms by (simp add: shape2_iff fftn_def)
next
  case False
  then have "ncols a = n" using assms by (simp add: ncols_shape)
  then show ?thesis using assms by (simp add: shape2_iff fftn_def Let_def)
qed

lemma fftn_nth:
  assumes "shape2 m n a" "k < m" "l < n"
  shows "fftn a ! k ! l = (\<Sum>m'<m. \<Sum>j'<n. a ! m' ! j' *
           cis (- (2 * pi * (real m' * real k / real m + real j' * real l / real n))))"
proof -
  have "ncols a = n" using assms by (simp add: ncols_shape)
  then show ?thesis using assms by (simp add: shape2_iff fftn_def Let_def)
qed

lemma ifftn_shape:
  assumes "shape2 m n a"
  shows "shape2 m n (ifftn a)"
proof (cases "m = 0")
  case True
  then show ?thesis using assms by (simp add: shape2_iff ifftn_def)
next
  case False
  then have "ncols a = n" using assms by (simp add: ncols_shape)
  then show ?thesis using assms by (simp add: shape2_iff ifftn_def Let_def)
qed

lemma ifftn_nth:
  assumes "shape2 m n a" "i < m" "j < n"
  shows "ifftn a ! i ! j = (\<Sum>k<m. \<Sum>l<n. a ! k ! l *
           cis (2 * pi * (real i * real k / real m + real j * real l / real n))) / of_nat (m * n)"
proof -
  have "ncols a = n" using assms by (simp add: ncols_shape)
  then show ?thesis using assms by (simp add: shape2_iff ifftn_def Let_def)
qed

lemma ifftn_fftn:
  assumes "shape2 m n a"
  shows "ifftn (fftn a) = a"
proof (rule array_eqI [OF ifftn_shape [OF fftn_shape [OF assms]] assms])
  fix i j assume ij: "i < m" "j < n"
  have "(\<Sum>k<m. \<Sum>l<n. fftn a ! k ! l *
           cis (2 * pi * (real i * real k / real m + real j * real l / real n)))
      = (\<Sum>k<m. \<Sum>l<n. (\<Sum>m'<m. \<Sum>j'<n. a ! m' ! j' *
           cis (- (2 * pi * (real m' * real k / real m + real j' * real l / real n))))
           * cis (2 * pi * (real i * real k / real m + real j * real l / real n)))"
    by (rule sum.cong [OF refl], rule sum.cong [OF refl]) (simp add: fftn_nth [OF assms])
  also have "\<dots> = of_nat (m * n) * a ! i ! j"
    using ij by (rule dft2_inverse)
  finally show "ifftn (fftn a) ! i ! j = a ! i ! j"
    using ij by (simp add: ifftn_nth [OF fftn_shape [OF assms]])
qed

lemma length_fftshift1: "length (fftshift1 xs) = length xs"
  by (simp add: fftshift1_def Let_def)

lemma fftshift1_map: "fftshift1 (map f xs) = map f (fftshift1 xs)"
  by (simp add: fftshift1_def Let_def drop_map take_map)

lemma fftshift1_twice:
  assumes "even (length xs)"
  shows "fftshift1 (fftshift1 xs) = xs"
proof -
  from assms obtain h where h: "length xs = 2 * h" by (auto elim: evenE)
  have p: "Suc (length xs) div 2 = h" by (simp add: h)
  have "fftshift1 xs = drop h xs @ take h xs"
    by (simp add: fftshift1_def Let_def p)
  moreover have "length (drop h xs) = h" by (simp add: h)
  ultimately show ?thesis
    by (simp add: fftshift1_def Let_def h)
qed

lemma set_fftshift1: "set (fftshift1 xs) = set xs"
proof -
  have "set (drop p xs @ take p xs) = set (take p xs @ drop p xs)" for p
    by (simp only: set_append Un_commute)
  then show ?thesis by (simp add: fftshift1_def Let_def del: set_append)
qed

lemma fftshift_shape:
  assumes "shape2 m n a"
  shows "shape2 m n (fftshift a)"
proof -
  have "set (fftshift a) = fftshift1 ` set a"
    by (simp add: fftshift_def set_fftshift1)
  then show ?thesis
    using assms by (auto simp: shape2_def list_all_iff fftshift_def length_fftshift1)
qed

lemma fftshift_twice:
  assumes "shape2 m n a" "even m" "even n"
  shows "fftshift (fftshift a) = a"
proof -
  have "fftshift (fftshift a) = fftshift1 (fftshift1 (map (\<lambda>r. fftshift1 (fftshift1 r)) a))"
    by (simp add: fftshift_def fftshift1_map)
  also have "map (\<lambda>r. fftshift1 (fftshift1 r)) a = map (\<lambda>r. r) a"
    using assms by (intro map_cong refl fftshift1_twice) (auto simp: shape2_def list_all_iff)
  also have "fftshift1 (fftshift1 (map (\<lambda>r. r) a)) = a"
    using assms by (simp add: fftshift1_twice shape2_def)
  finally show ?thesis .
qed

lemma ft_shape: "shape2 m n a \<Longrightarrow> shape2 m n (ft a)"
  unfolding ft_def by (intro fftshift_shape fftn_shape)

lemma ift_shape: "shape2 m n a \<Longrightarrow> shape2 m n (ift a)"
  unfolding ift_def by (intro ifftn_shape fftshift_shape)

lemma fftshift_zeros: "fftshift (zeros m n) = zeros m n"
proof -
  have r: "fftshift1 (replicate k x) = replicate k x" for k and x :: 'b
    by (simp add: fftshift1_def Let_def replicate_add [symmetric])
  show ?thesis
    by (simp add: fftshift_def zeros_def r)
qed


lemma ifftn_zeros: "ifftn (zeros m n) = zeros m n"
  by (rule array_eqI [OF ifftn_shape [OF zeros_shape] zeros_shape])
    (simp add: ifftn_nth [OF zeros_shape] zeros_nth)


lemma ift_zeros: "ift (zeros m n) = zeros m n"
  by (simp add: ift_def ifftn_zeros fftshift_zeros)

lemma fftshift1_one:
  assumes "length xs = 1"
  shows "fftshift1 xs = xs"
  using assms by (simp add: fftshift1_def Let_def)

lemma fftshift_one:
  assumes "shape2 1 1 a"
  shows "fftshift a = a"
proof -
  have "map fftshift1 a = map (\<lambda>r. r) a"
    using assms by (intro map_cong refl fftshift1_one) (auto simp: shape2_def list_all_iff)
  then show ?thesis
    using assms by (simp add: fftshift_def fftshift1_one shape2_def)
qed

text \<open>
  Along an axis of even length, and along one of length 1, a second \<^verbatim>\<open>fftshift\<close> undoes
  the first, and then \<^verbatim>\<open>ift\<close> inverts \<^verbatim>\<open>ft\<close> in exact arithmetic.
\<close>

lemma transform_round_trip_even:
  assumes "even n \<or> n = 1" "shape2 n n F"
  shows "ift (ft F) = F"
proof -
  have s: "shape2 n n (fftn F)" using assms(2) by (rule fftn_shape)
  have "fftshift (fftshift (fftn F)) = fftn F"
  proof (cases "even n")
    case True
    then show ?thesis using s by (intro fftshift_twice)
  next
    case False
    with assms(1) have "n = 1" by simp
    with s have "shape2 1 1 (fftn F)" by simp
    then show ?thesis by (simp add: fftshift_one)
  qed
  then show ?thesis
    using assms(2) by (simp add: ift_def ft_def ifftn_fftn)
qed

lemma transform_round_trip_even_example:
  "ift (ft [[1, 2], [3, 4]]) = [[1, 2], [3, 4]] \<and> ift (ft [[5]]) = [[5]]"
proof -
  have a: "shape2 2 2 [[1, 2], [3, 4 :: complex]]" and b: "shape2 1 1 [[5 :: complex]]"
    by (simp_all add: shape2_def)
  show ?thesis
    using transform_round_trip_even [of 2, OF _ a] transform_round_trip_even [of 1, OF _ b]
    by simp
qed

text \<open>
  C4. The round trip \<open>ift (ft F) = F\<close> does not hold for every complex field of shape
  \<open>(n, n)\<close>. \<^verbatim>\<open>ift\<close> undoes the centre shift of \<^verbatim>\<open>ft\<close> by a second \<^verbatim>\<open>fftshift\<close>, which is
  the inverse shift only along an axis of even length or of length 1; along an odd axis
  the inverse is numpy's \<^verbatim>\<open>ifftshift\<close>. On the \<open>3 \<times> 3\<close> field with a single \<open>1\<close> at row 0,
  column 1, the entry comes back as \<open>exp (- 2 pi i / 3)\<close> and not as \<open>1\<close>, in exact
  arithmetic.
\<close>

theorem transform_round_trip_odd:
  "ift (ft [[0, 1, 0], [0, 0, 0], [0, 0, 0]]) ! 0 ! 1 = cis (- (2 * pi / 3))
   \<and> cis (- (2 * pi / 3)) \<noteq> 1
   \<and> ift (ft [[0, 1, 0], [0, 0, 0], [0, 0, 0]]) \<noteq> [[0, 1, 0], [0, 0, 0], [0, 0, 0]]"
proof -
  let ?F = "[[0, 1, 0], [0, 0, 0], [0, 0, 0 :: complex]]"
  let ?w1 = "cis (- (2 * pi / 3))" and ?w2 = "cis (- (4 * pi / 3))"
  have X: "fftn ?F = [[1, ?w1, ?w2], [1, ?w1, ?w2], [1, ?w1, ?w2]]"
    by (simp add: fftn_def ncols_def Let_def eval_nat_numeral lessThan_Suc upt_rec)
  have Y: "fftshift (fftshift [[1, ?w1, ?w2], [1, ?w1, ?w2], [1, ?w1, ?w2]])
      = [[?w1, ?w2, 1], [?w1, ?w2, 1], [?w1, ?w2, 1]]"
    by (simp add: fftshift_def fftshift1_def Let_def)
  have Z: "ifftn [[?w1, ?w2, 1], [?w1, ?w2, 1], [?w1, ?w2, 1]] ! 0 ! 1
      = (3 * (cis (4 * pi / 3) + ?w2 * cis (2 * pi / 3) + ?w1)) / 9"
    by (simp add: ifftn_def ncols_def Let_def eval_nat_numeral lessThan_Suc upt_rec)
  have v: "ift (ft ?F) ! 0 ! 1 = (3 * (cis (4 * pi / 3) + ?w2 * cis (2 * pi / 3) + ?w1)) / 9"
    unfolding ift_def ft_def X Y Z ..
  have "4 * pi / 3 = - (2 * pi / 3) + 2 * pi" by simp
  then have p: "cis (4 * pi / 3) = ?w1"
    by (simp only: complex_eq_iff cis.simps cos_periodic sin_periodic)
  have "- (4 * pi / 3) + 2 * pi / 3 = - (2 * pi / 3)" by simp
  then have q: "?w2 * cis (2 * pi / 3) = ?w1"
    by (simp only: cis_mult)
  have a: "ift (ft ?F) ! 0 ! 1 = ?w1"
    unfolding v p q by simp
  have "Re ?w1 = - 1 / 2" using cos_120 by simp
  then have b: "?w1 \<noteq> 1" by (auto simp del: cis.sel)
  have "ift (ft ?F) \<noteq> ?F"
  proof
    assume "ift (ft ?F) = ?F"
    then have "ift (ft ?F) ! 0 ! 1 = 1" by simp
    with a b show False by simp
  qed
  with a b show ?thesis by blast
qed

section \<open>The time integrator\<close>

lemma aadd_shape: "shape2 m n a \<Longrightarrow> shape2 m n b \<Longrightarrow> shape2 m n (aadd a b)"
  unfolding aadd_def by (rule ew2_shape)

lemma asub_shape: "shape2 m n a \<Longrightarrow> shape2 m n b \<Longrightarrow> shape2 m n (asub a b)"
  unfolding asub_def by (rule ew2_shape)

lemma amul_shape: "shape2 m n a \<Longrightarrow> shape2 m n b \<Longrightarrow> shape2 m n (amul a b)"
  unfolding amul_def by (rule ew2_shape)

lemma aneg_shape: "shape2 m n a \<Longrightarrow> shape2 m n (aneg a)"
  unfolding aneg_def by (rule ew_shape)

lemma ascale_shape: "shape2 m n a \<Longrightarrow> shape2 m n (ascale c a)"
  unfolding ascale_def by (rule ew_shape)

lemma acomplex_shape: "shape2 m n a \<Longrightarrow> shape2 m n (acomplex a)"
  unfolding acomplex_def by (rule ew_shape)

lemmas shape_intros =
  aadd_shape asub_shape amul_shape aneg_shape ascale_shape acomplex_shape ew_shape
  ft_shape ift_shape anti_alias_shape poisson_shape zeros_shape

lemma aadd_nth:
  "shape2 m n a \<Longrightarrow> shape2 m n b \<Longrightarrow> i < m \<Longrightarrow> j < n \<Longrightarrow>
     aadd a b ! i ! j = a ! i ! j + b ! i ! j"
  unfolding aadd_def by (rule ew2_nth)

lemma asub_nth:
  "shape2 m n a \<Longrightarrow> shape2 m n b \<Longrightarrow> i < m \<Longrightarrow> j < n \<Longrightarrow>
     asub a b ! i ! j = a ! i ! j - b ! i ! j"
  unfolding asub_def by (rule ew2_nth)

lemma amul_nth:
  "shape2 m n a \<Longrightarrow> shape2 m n b \<Longrightarrow> i < m \<Longrightarrow> j < n \<Longrightarrow>
     amul a b ! i ! j = a ! i ! j * b ! i ! j"
  unfolding amul_def by (rule ew2_nth)

lemma aneg_nth:
  "shape2 m n a \<Longrightarrow> i < m \<Longrightarrow> j < n \<Longrightarrow> aneg a ! i ! j = - (a ! i ! j)"
  unfolding aneg_def by (rule ew_nth)

lemma ascale_nth:
  "shape2 m n a \<Longrightarrow> i < m \<Longrightarrow> j < n \<Longrightarrow> ascale c a ! i ! j = c * a ! i ! j"
  unfolding ascale_def by (rule ew_nth)

lemma acomplex_nth:
  "shape2 m n a \<Longrightarrow> i < m \<Longrightarrow> j < n \<Longrightarrow> acomplex a ! i ! j = complex_of_real (a ! i ! j)"
  unfolding acomplex_def by (rule ew_nth)

lemma leapfrog_shape:
  assumes "shape2 m n phi" "shape2 m n f"
  shows "shape2 m n (leapfrog phi f d)"
  unfolding leapfrog_def by (intro shape_intros assms)

lemma leapfrog_nth:
  assumes "shape2 m n phi" "shape2 m n f" "i < m" "j < n"
  shows "leapfrog phi f d ! i ! j = phi ! i ! j + complex_of_real (2 * d) * f ! i ! j"
  unfolding leapfrog_def using assms
  by (simp add: aadd_nth [OF _ ascale_shape] ascale_nth)

lemma raw_filter_shape:
  assumes "shape2 m n a" "shape2 m n b" "shape2 m n c"
  shows "shape2 m n (raw_filter a b c v)"
  unfolding raw_filter_def by (intro shape_intros assms)

lemma raw_filter_nth:
  assumes "shape2 m n a" "shape2 m n b" "shape2 m n c" "i < m" "j < n"
  shows "raw_filter a b c v ! i ! j
     = b ! i ! j + complex_of_real v * (c ! i ! j - 2 * b ! i ! j + a ! i ! j)"
proof -
  let ?b2 = "ascale 2.0 b"
  let ?d = "aadd (asub c ?b2) a"
  have sb: "shape2 m n ?b2" by (intro shape_intros assms)
  have s1: "shape2 m n (asub c ?b2)" by (intro shape_intros assms)
  have s2: "shape2 m n ?d" by (intro shape_intros assms)
  have s3: "shape2 m n (ascale (complex_of_real v) ?d)" by (intro shape_intros assms)
  have "raw_filter a b c v ! i ! j = b ! i ! j + ascale (complex_of_real v) ?d ! i ! j"
    unfolding raw_filter_def by (rule aadd_nth [OF assms(2) s3 assms(4,5)])
  also have "ascale (complex_of_real v) ?d ! i ! j = complex_of_real v * ?d ! i ! j"
    by (rule ascale_nth [OF s2 assms(4,5)])
  also have "?d ! i ! j = asub c ?b2 ! i ! j + a ! i ! j"
    by (rule aadd_nth [OF s1 assms(1,4,5)])
  also have "asub c ?b2 ! i ! j = c ! i ! j - ?b2 ! i ! j"
    by (rule asub_nth [OF assms(3) sb assms(4,5)])
  also have "?b2 ! i ! j = 2 * b ! i ! j"
    by (simp add: ascale_nth [OF assms(2,4,5)])
  finally show ?thesis .
qed

lemma grad_shape:
  assumes "grid_ok n g" "shape2 n n w"
  shows "shape2 n n (fst (grad g w))" "shape2 n n (snd (grad g w))"
  using assms by (simp_all add: grad_def grid_ok_def amul_shape)

lemma grad_eq: "grad g w = (amul (ik g) w, amul (il g) w)"
  by (simp add: grad_def)

lemma jacobian_shape:
  assumes "grid_ok n g" "shape2 n n w"
  shows "shape2 n n (jacobian p g w)"
proof -
  have r: "shape2 n n (rksq g)" "shape2 n n (ik g)" "shape2 n n (il g)"
    using assms(1) by (simp_all add: grid_ok_def)
  show ?thesis
    unfolding jacobian_def grad_eq Let_def prod.case
    by (intro shape_intros r assms(2))
qed

lemma np_max_eq:
  assumes "shape2 m n a" "0 < m" "0 < n"
  shows "np_max a = Inr (Max (set (concat a)))"
proof -
  obtain r rs where a: "a = r # rs" using assms by (cases a) (auto simp: shape2_def)
  then have "length r = n" using assms by (simp add: shape2_def)
  then obtain x xs where r: "r = x # xs" using assms(3) by (cases r) auto
  have c: "concat a = x # (xs @ concat rs)" by (simp add: a r)
  have "np_max a = Inr (fold max (xs @ concat rs) x)"
    by (simp add: np_max_def c)
  also have "fold max (xs @ concat rs) x = Max (set (x # (xs @ concat rs)))"
    by (rule Max.set_eq_fold [symmetric])
  finally show ?thesis by (simp only: c)
qed

lemma courant_number_eq:
  assumes "shape2 m n psix" "shape2 m n psiy" "0 < m" "0 < n"
  shows "courant_number psix psiy dx' dt' =
     Inr ((Max (set (concat (ew cmod psiy))) + Max (set (concat (ew cmod psix)))) * dt' / dx')"
  using assms
  by (simp add: courant_number_def np_max_eq [OF ew_shape] Let_def)

lemma integrate_unfold:
  "integrate p g st =
     (case courant_number (ift (amul (ik g) (poisson g (zt st))))
             (ift (amul (il g) (poisson g (zt st)))) (dx g) (dt st) of
        Inl e \<Rightarrow> Inl e
      | Inr c \<Rightarrow>
         (let dt' = (if c > SLOWDN_AT_C p then 0.9 * dt st
                     else if c < SPEEDUP_AT_C p \<and> ALLOW_SPEEDUP p then 1.1 * dt st
                     else dt st);
              rhs = asub (aneg (anti_alias g (ft (jacobian p g (zt st))) (k_max g)))
                      (ascale (complex_of_real (beta p)) (amul (ik g) (poisson g (zt st))));
              zt1 = amul (leapfrog (zt_prev st) rhs dt') (acomplex (del4 g))
          in Inr (c, \<lparr>zt_prev = raw_filter (zt_prev st) (zt st) zt1 0.01, zt = zt1,
                      zt_next = zt1, z = ift (zt st), dt = dt'\<rparr>)))"
  by (simp add: integrate_def jacobian_def grad_eq Let_def split: sum.splits)

lemma rhs_shape:
  assumes "grid_ok n g" "shape2 n n w"
  shows "shape2 n n (asub (aneg (anti_alias g (ft (jacobian p g w)) (k_max g)))
                      (ascale (complex_of_real (beta p)) (amul (ik g) (poisson g w))))"
proof -
  have r: "shape2 n n (rksq g)" "shape2 n n (ik g)" "shape2 n n (kk g)" "shape2 n n (ll g)"
    using assms(1) by (simp_all add: grid_ok_def)
  show ?thesis
    by (intro shape_intros r assms(2) jacobian_shape [OF assms])
qed

lemma integrate_result:
  fixes p g st
  defines "psit \<equiv> poisson g (zt st)"
  defines "c \<equiv> (Max (set (concat (ew cmod (ift (amul (il g) psit)))))
               + Max (set (concat (ew cmod (ift (amul (ik g) psit)))))) * dt st / dx g"
  defines "dt' \<equiv> (if c > SLOWDN_AT_C p then 0.9 * dt st
                   else if c < SPEEDUP_AT_C p \<and> ALLOW_SPEEDUP p then 1.1 * dt st
                   else dt st)"
  defines "rhs \<equiv> asub (aneg (anti_alias g (ft (jacobian p g (zt st))) (k_max g)))
                      (ascale (complex_of_real (beta p)) (amul (ik g) psit))"
  defines "zt1 \<equiv> amul (leapfrog (zt_prev st) rhs dt') (acomplex (del4 g))"
  assumes ok: "grid_ok n g" "state_ok n st" "0 < n"
  shows "integrate p g st =
           Inr (c, \<lparr>zt_prev = raw_filter (zt_prev st) (zt st) zt1 0.01, zt = zt1,
                     zt_next = zt1, z = ift (zt st), dt = dt'\<rparr>)"
proof -
  have r: "shape2 n n (rksq g)" "shape2 n n (ik g)" "shape2 n n (il g)"
    and w: "shape2 n n (zt st)"
    using ok by (simp_all add: grid_ok_def state_ok_def)
  have px: "shape2 n n (ift (amul (ik g) psit))" and py: "shape2 n n (ift (amul (il g) psit))"
    unfolding psit_def by (intro shape_intros r w)+
  have "courant_number (ift (amul (ik g) psit)) (ift (amul (il g) psit)) (dx g) (dt st) = Inr c"
    unfolding c_def by (rule courant_number_eq [OF px py ok(3) ok(3)])
  then show ?thesis
    unfolding integrate_unfold psit_def [symmetric]
    by (simp add: Let_def dt'_def rhs_def zt1_def)
qed

lemma advance_nth:
  assumes "shape2 n n a" "shape2 n n rhs" "shape2 n n d4" "i < n" "j < n"
  shows "amul (leapfrog a rhs d) (acomplex d4) ! i ! j
     = (a ! i ! j + 2 * complex_of_real d * rhs ! i ! j) * complex_of_real (d4 ! i ! j)"
  using assms
  by (simp add: amul_nth [OF leapfrog_shape acomplex_shape] leapfrog_nth acomplex_nth)

lemma advance_shape:
  assumes "shape2 n n a" "shape2 n n rhs" "shape2 n n d4"
  shows "shape2 n n (amul (leapfrog a rhs d) (acomplex d4))"
  by (intro shape_intros leapfrog_shape assms)

lemma grid_of_ok:
  assumes "0 < N p"
  shows "grid_ok (nat (N p)) (grid_of p)"
proof -
  have "0 < dx_of (N p)" using assms by (simp add: dx_of_def domain_def)
  moreover have "shape2 (nat (N p)) (nat (N p)) (ik_of (N p))"
    "shape2 (nat (N p)) (nat (N p)) (il_of (N p))"
    unfolding ik_of_def il_of_def by (intro shape_intros kk_shape ll_shape)+
  moreover have "shape2 (nat (N p)) (nat (N p)) (del4_of (N p) (tau p))"
    unfolding del4_of_def by (intro shape_intros ksq_shape)
  ultimately show ?thesis
    by (simp add: grid_ok_def grid_of_simps kk_shape ll_shape ksq_shape rksq_shape)
qed

lemma spot_ic_shape:
  assumes "shape2 m n w"
  shows "shape2 m n (spot_ic w)"
  using assms
  by (auto simp: shape2_def spot_ic_def Let_def list_all_iff in_set_enumerate_eq
      split: prod.splits)

lemma random_ic_shape:
  assumes "shape2 m n u"
  shows "shape2 m n (random_ic u w)"
  unfolding random_ic_def by (intro shape_intros assms)

lemma integrate_state_ok:
  assumes "grid_ok n g" "state_ok n st" "0 < n" "integrate p g st = Inr (c, st')"
  shows "state_ok n st'"
proof -
  let ?rhs = "asub (aneg (anti_alias g (ft (jacobian p g (zt st))) (k_max g)))
                (ascale (complex_of_real (beta p)) (amul (ik g) (poisson g (zt st))))"
  have sh: "shape2 n n (zt_prev st)" "shape2 n n (zt st)" "shape2 n n (del4 g)"
    using assms by (simp_all add: grid_ok_def state_ok_def)
  have rs: "shape2 n n ?rhs" using assms(1) sh(2) by (rule rhs_shape)
  have z1: "shape2 n n (amul (leapfrog (zt_prev st) ?rhs d) (acomplex (del4 g)))" for d
    using sh(1) rs sh(3) by (rule advance_shape)
  from assms(4) show ?thesis
    unfolding integrate_result [OF assms(1-3), of p]
    by (auto simp: state_ok_def z1 raw_filter_shape [OF sh(1) sh(2) z1])
qed

lemma script_setup_ok:
  assumes "script_setup ics p = Inr (g, st)"
    and "\<And>f w. ics (IC p) = Some f \<Longrightarrow> shape2 (nat (N p)) (nat (N p)) w
           \<Longrightarrow> shape2 (nat (N p)) (nat (N p)) (f w)"
  shows "0 < N p \<and> g = grid_of p \<and> grid_ok (nat (N p)) g \<and> state_ok (nat (N p)) st
     \<and> dt st = dt_of (N p)"
proof -
  from assms(1) have n: "0 < N p"
    by (auto simp: script_setup_def Let_def split: if_splits)
  from assms(1) n obtain f where f: "ics (IC p) = Some f"
    and r: "g = grid_of p"
      "st = \<lparr>zt_prev = ft (f (zeros (nat (N p)) (nat (N p)))),
             zt = ft (f (zeros (nat (N p)) (nat (N p)))),
             zt_next = ft (f (zeros (nat (N p)) (nat (N p)))),
             z = f (zeros (nat (N p)) (nat (N p))), dt = dt_of (N p)\<rparr>"
    by (auto simp: script_setup_def Let_def split: if_splits option.splits)
  have "shape2 (nat (N p)) (nat (N p)) (ft (f (zeros (nat (N p)) (nat (N p)))))"
    by (intro ft_shape assms(2) [OF f] zeros_shape)
  then show ?thesis
    using n by (simp add: r state_ok_def grid_of_ok)
qed

text \<open>
  C1. For every grid and state of shape \<open>(n, n)\<close> with \<open>n > 0\<close>, a call of \<^verbatim>\<open>integrate\<close>
  returns, and the returned state has the shape \<open>(n, n)\<close> again, so that the statement
  applies to every call of the driver loop. With \<open>psi_hat = - rksq * zt\<close> and
  \<open>rhs = - anti_alias (ft jac) - beta * (ik * psi_hat)\<close>, the provisional field is
  \<open>(zt_prev + 2 * dt' * rhs) * del4\<close>, where \<open>dt'\<close> is the timestep of the returned state,
  that is, the timestep after this call's Courant adjustment; the new previous field is
  \<open>zt + 0.01 * (zt_next - 2 * zt + zt_prev)\<close> and the new current field is the provisional
  field.
\<close>

theorem leapfrog_step:
  assumes "grid_ok n g" "state_ok n st" "0 < n"
  shows "\<exists>c st'. integrate p g st = Inr (c, st')
     \<and> (let psi_hat = poisson g (zt st);
            rhs = asub (aneg (anti_alias g (ft (jacobian p g (zt st))) (k_max g)))
                       (ascale (complex_of_real (beta p)) (amul (ik g) psi_hat))
        in zt_next st' = amul (leapfrog (zt_prev st) rhs (dt st')) (acomplex (del4 g))
         \<and> zt_prev st' = raw_filter (zt_prev st) (zt st) (zt_next st') 0.01
         \<and> zt st' = zt_next st'
         \<and> state_ok n st'
         \<and> (\<forall>i<n. \<forall>j<n.
              psi_hat ! i ! j = - complex_of_real (rksq g ! i ! j) * zt st ! i ! j
            \<and> zt_next st' ! i ! j
                = (zt_prev st ! i ! j + 2 * complex_of_real (dt st') * rhs ! i ! j)
                  * complex_of_real (del4 g ! i ! j)
            \<and> zt_prev st' ! i ! j
                = zt st ! i ! j
                  + 0.01 * (zt_next st' ! i ! j - 2 * zt st ! i ! j + zt_prev st ! i ! j)))"
proof -
  let ?rhs = "asub (aneg (anti_alias g (ft (jacobian p g (zt st))) (k_max g)))
                (ascale (complex_of_real (beta p)) (amul (ik g) (poisson g (zt st))))"
  have sh: "shape2 n n (zt_prev st)" "shape2 n n (zt st)" "shape2 n n (del4 g)"
    "shape2 n n (rksq g)"
    using assms by (simp_all add: grid_ok_def state_ok_def)
  have rs: "shape2 n n ?rhs" using assms(1) sh(2) by (rule rhs_shape)
  from integrate_result [OF assms, of p]
  obtain c d' where i: "integrate p g st =
      Inr (c, \<lparr>zt_prev = raw_filter (zt_prev st) (zt st)
                   (amul (leapfrog (zt_prev st) ?rhs d') (acomplex (del4 g))) 0.01,
                zt = amul (leapfrog (zt_prev st) ?rhs d') (acomplex (del4 g)),
                zt_next = amul (leapfrog (zt_prev st) ?rhs d') (acomplex (del4 g)),
                z = ift (zt st), dt = d'\<rparr>)"
    by blast
  let ?zt1 = "amul (leapfrog (zt_prev st) ?rhs d') (acomplex (del4 g))"
  have z1: "shape2 n n ?zt1" using sh(1) rs sh(3) by (rule advance_shape)
  have pt: "poisson g (zt st) ! i ! j = - complex_of_real (rksq g ! i ! j) * zt st ! i ! j
            \<and> ?zt1 ! i ! j
                = (zt_prev st ! i ! j + 2 * complex_of_real d' * ?rhs ! i ! j)
                  * complex_of_real (del4 g ! i ! j)
            \<and> raw_filter (zt_prev st) (zt st) ?zt1 0.01 ! i ! j
                = zt st ! i ! j
                  + 0.01 * (?zt1 ! i ! j - 2 * zt st ! i ! j + zt_prev st ! i ! j)"
    if "i < n" "j < n" for i j
    using that
    by (simp add: poisson_nth [OF sh(4) sh(2)] advance_nth [OF sh(1) rs sh(3)]
        raw_filter_nth [OF sh(1) sh(2) z1])
  note so = integrate_state_ok [OF assms i]
  show ?thesis
    unfolding i Let_def using pt so by (intro exI conjI) auto
qed

theorem leapfrog_step_witness:
  "\<exists>c st'. integrate (default_params\<lparr>N := 2\<rparr>) (grid_of (default_params\<lparr>N := 2\<rparr>))
       \<lparr>zt_prev = [[1, 0], [0, 0]], zt = [[0, 1], [0, 0]], zt_next = [[0, 1], [0, 0]],
        z = zeros 2 2, dt = dt_of 2\<rparr> = Inr (c, st')
     \<and> zt st' = zt_next st'
     \<and> zt_prev st' = raw_filter [[1, 0], [0, 0]] [[0, 1], [0, 0]] (zt_next st') 0.01
     \<and> zt_prev st' ! 0 ! 1 = 1 + 0.01 * (zt_next st' ! 0 ! 1 - 2)"
proof -
  let ?p = "default_params\<lparr>N := 2\<rparr>"
  let ?st = "\<lparr>zt_prev = [[1, 0], [0, 0]], zt = [[0, 1], [0, 0]], zt_next = [[0, 1], [0, 0]],
        z = zeros 2 2, dt = dt_of 2\<rparr>"
  have g: "grid_ok 2 (grid_of ?p)" using grid_of_ok [of ?p] by simp
  have s: "state_ok 2 ?st" by (simp add: state_ok_def shape2_def)
  from leapfrog_step [OF g s, of ?p, unfolded Let_def]
  obtain c st' where r: "integrate ?p (grid_of ?p) ?st = Inr (c, st')"
    "zt st' = zt_next st'"
    "zt_prev st' = raw_filter (zt_prev ?st) (zt ?st) (zt_next st') 0.01"
    "\<forall>i<2. \<forall>j<2.
       poisson (grid_of ?p) (zt ?st) ! i ! j
         = - complex_of_real (rksq (grid_of ?p) ! i ! j) * zt ?st ! i ! j
     \<and> zt_next st' ! i ! j
         = (zt_prev ?st ! i ! j + 2 * complex_of_real (dt st') *
             asub (aneg (anti_alias (grid_of ?p) (ft (jacobian ?p (grid_of ?p) (zt ?st)))
                     (k_max (grid_of ?p))))
                  (ascale (complex_of_real (beta ?p))
                     (amul (ik (grid_of ?p)) (poisson (grid_of ?p) (zt ?st)))) ! i ! j)
           * complex_of_real (del4 (grid_of ?p) ! i ! j)
     \<and> zt_prev st' ! i ! j
         = zt ?st ! i ! j + 0.01 * (zt_next st' ! i ! j - 2 * zt ?st ! i ! j + zt_prev ?st ! i ! j)"
    by auto
  from r(4) have "zt_prev st' ! 0 ! 1
         = zt ?st ! 0 ! 1 + 0.01 * (zt_next st' ! 0 ! 1 - 2 * zt ?st ! 0 ! 1 + zt_prev ?st ! 0 ! 1)"
    by simp
  then have "zt_prev st' ! 0 ! 1 = 1 + 0.01 * (zt_next st' ! 0 ! 1 - 2)" by simp
  with r(1,2,3) show ?thesis by auto
qed

lemma k_arr_2: "k_arr 2 = [- dk, 0]"
proof -
  have "arange ((- 2) div 2) (2 div 2) = [- 1, 0]"
    by (simp add: arange_def upto.simps)
  then show ?thesis by (simp add: k_arr_def)
qed

lemma grid_2:
  "kk_of 2 = [[- dk, 0], [- dk, 0]]" "ll_of 2 = [[- dk, - dk], [0, 0]]"
  by (simp_all add: kk_of_def ll_of_def meshgrid_def k_arr_2 l_arr_eq)

lemma ksq_2: "ksq_of 2 = [[dk ^ 2 + dk ^ 2, dk ^ 2], [dk ^ 2, 1]]"
  using dk_pos
  by (simp add: ksq_of_def grid_2 aadd_def ew_def ew2_def mask_assign_def Let_def)

lemma psit_2:
  "poisson (grid_of (p\<lparr>N := 2\<rparr>)) [[0, 0], [complex_of_real a, 0]]
     = [[0, 0], [- complex_of_real a / complex_of_real (dk ^ 2), 0]]"
  by (simp add: poisson_def grid_of_simps rksq_of_def ksq_2 arith_defs ew_def ew2_def)

lemma psix_2:
  "ift (amul (ik (grid_of (p\<lparr>N := 2\<rparr>)))
          [[0, 0], [- complex_of_real a / complex_of_real (dk ^ 2), 0]])
     = [[\<i> * complex_of_real a / (complex_of_real dk * 4),
         - (\<i> * complex_of_real a / (complex_of_real dk * 4))],
        [\<i> * complex_of_real a / (complex_of_real dk * 4),
         - (\<i> * complex_of_real a / (complex_of_real dk * 4))]]"
proof -
  have "amul (ik (grid_of (p\<lparr>N := 2\<rparr>)))
          [[0, 0], [- complex_of_real a / complex_of_real (dk ^ 2), 0]]
      = [[0, 0], [\<i> * complex_of_real a / complex_of_real dk, 0]]"
    using dk_pos
    by (simp add: grid_of_simps ik_of_def grid_2 arith_defs ew_def ew2_def power2_eq_square)
  moreover have "ift [[0, 0], [\<i> * complex_of_real a / complex_of_real dk, 0]]
      = [[\<i> * complex_of_real a / (complex_of_real dk * 4),
         - (\<i> * complex_of_real a / (complex_of_real dk * 4))],
        [\<i> * complex_of_real a / (complex_of_real dk * 4),
         - (\<i> * complex_of_real a / (complex_of_real dk * 4))]]"
    unfolding ift_def
    by (simp add: fftshift_def fftshift1_def Let_def)
      (simp add: ifftn_def ncols_def Let_def eval_nat_numeral lessThan_Suc upt_rec)
  ultimately show ?thesis by simp
qed

lemma psiy_2:
  "ift (amul (il (grid_of (p\<lparr>N := 2\<rparr>)))
          [[0, 0], [- complex_of_real a / complex_of_real (dk ^ 2), 0]])
     = [[0, 0], [0, 0]]"
proof -
  have "amul (il (grid_of (p\<lparr>N := 2\<rparr>)))
          [[0, 0], [- complex_of_real a / complex_of_real (dk ^ 2), 0]]
      = [[0, 0], [0, 0]]"
    by (simp add: grid_of_simps il_of_def grid_2 arith_defs ew_def ew2_def)
  moreover have "ift [[0, 0], [0, 0 :: complex]] = [[0, 0], [0, 0]]"
    using ift_zeros [of 2 2] by (simp add: zeros_def numeral_2_eq_2)
  ultimately show ?thesis by simp
qed

lemma courant_2:
  assumes "0 \<le> a"
  shows "(Max (set (concat (ew cmod (ift (amul (ik (grid_of (p\<lparr>N := 2\<rparr>)))
               (poisson (grid_of (p\<lparr>N := 2\<rparr>)) [[0, 0], [complex_of_real a, 0]]))))))
        + Max (set (concat (ew cmod (ift (amul (il (grid_of (p\<lparr>N := 2\<rparr>)))
               (poisson (grid_of (p\<lparr>N := 2\<rparr>)) [[0, 0], [complex_of_real a, 0]])))))))
        * dt_of 2 / dx (grid_of (p\<lparr>N := 2\<rparr>))
     = 4 * a / (5 * pi)"
proof -
  have m: "cmod (\<i> * complex_of_real a / (complex_of_real dk * 4)) = a / (dk * 4)"
    using assms dk_pos by (simp add: norm_divide norm_mult)
  have x: "Max (set (concat (ew cmod
        [[\<i> * complex_of_real a / (complex_of_real dk * 4),
          - (\<i> * complex_of_real a / (complex_of_real dk * 4))],
         [\<i> * complex_of_real a / (complex_of_real dk * 4),
          - (\<i> * complex_of_real a / (complex_of_real dk * 4))]]))) = a / (dk * 4)"
    by (simp add: ew_def m)
  have y: "Max (set (concat (ew cmod [[0, 0], [0, 0]]))) = 0"
    by (simp add: ew_def)
  have "(a / (dk * 4) + 0) * dt_of 2 / dx (grid_of (p\<lparr>N := 2\<rparr>)) = 4 * a / (5 * pi)"
    by (simp add: grid_of_simps dx_of_def dt_of_def domain_def dk_def)
  then show ?thesis
    unfolding psit_2 psix_2 psiy_2 x y .
qed

text \<open>
  C2. In a call of \<^verbatim>\<open>integrate\<close> the Courant number is
  \<open>c = (max |psix| + max |psiy|) * dt / dx\<close>, from the velocities of this call and the
  timestep at entry. If \<open>c > SLOWDN_AT_C\<close> the timestep of the returned state is \<open>0.9\<close> times
  the timestep at entry; otherwise, if \<open>c < SPEEDUP_AT_C\<close> and \<open>ALLOW_SPEEDUP\<close> is set, it is
  \<open>1.1\<close> times the timestep at entry; otherwise it is unchanged. The leapfrog advance of the
  same call uses the timestep of the returned state: every coefficient of the provisional
  field is \<open>(zt_prev + 2 * dt' * rhs) * del4\<close> with that timestep \<open>dt'\<close>.
\<close>

theorem courant_adaptation:
  assumes "grid_ok n g" "state_ok n st" "0 < n"
  shows "\<exists>c st'. integrate p g st = Inr (c, st')
     \<and> (let psi_hat = poisson g (zt st);
            psix = ift (amul (ik g) psi_hat);
            psiy = ift (amul (il g) psi_hat);
            rhs = asub (aneg (anti_alias g (ft (jacobian p g (zt st))) (k_max g)))
                       (ascale (complex_of_real (beta p)) (amul (ik g) psi_hat))
        in c = (Max (set (concat (ew cmod psix))) + Max (set (concat (ew cmod psiy))))
                 * dt st / dx g
         \<and> (c > SLOWDN_AT_C p \<longrightarrow> dt st' = 0.9 * dt st)
         \<and> (\<not> c > SLOWDN_AT_C p \<and> c < SPEEDUP_AT_C p \<and> ALLOW_SPEEDUP p
               \<longrightarrow> dt st' = 1.1 * dt st)
         \<and> (\<not> c > SLOWDN_AT_C p \<and> \<not> (c < SPEEDUP_AT_C p \<and> ALLOW_SPEEDUP p)
               \<longrightarrow> dt st' = dt st)
         \<and> zt_next st' = amul (leapfrog (zt_prev st) rhs (dt st')) (acomplex (del4 g))
         \<and> (\<forall>i<n. \<forall>j<n.
               zt_next st' ! i ! j
                 = (zt_prev st ! i ! j + 2 * complex_of_real (dt st') * rhs ! i ! j)
                   * complex_of_real (del4 g ! i ! j)))"
proof -
  let ?rhs = "asub (aneg (anti_alias g (ft (jacobian p g (zt st))) (k_max g)))
                (ascale (complex_of_real (beta p)) (amul (ik g) (poisson g (zt st))))"
  have sh: "shape2 n n (zt_prev st)" "shape2 n n (zt st)" "shape2 n n (del4 g)"
    using assms by (simp_all add: grid_ok_def state_ok_def)
  have rs: "shape2 n n ?rhs" using assms(1) sh(2) by (rule rhs_shape)
  have pt: "amul (leapfrog (zt_prev st) ?rhs d) (acomplex (del4 g)) ! i ! j
      = (zt_prev st ! i ! j + 2 * complex_of_real d * ?rhs ! i ! j)
        * complex_of_real (del4 g ! i ! j)"
    if "i < n" "j < n" for i j d
    using sh(1) rs sh(3) that by (rule advance_nth)
  show ?thesis
    unfolding integrate_result [OF assms, of p] Let_def
    by (intro exI conjI) (auto simp: add.commute pt)
qed

theorem courant_adaptation_witness:
  "(\<exists>c st'. integrate (default_params\<lparr>N := 2\<rparr>) (grid_of (default_params\<lparr>N := 2\<rparr>))
        \<lparr>zt_prev = [[1, 0], [0, 0]], zt = [[0, 0], [complex_of_real 4, 0]],
         zt_next = [[0, 0], [0, 0]], z = zeros 2 2, dt = dt_of 2\<rparr> = Inr (c, st')
      \<and> c = 16 / (5 * pi) \<and> SLOWDN_AT_C (default_params\<lparr>N := 2\<rparr>) < c
      \<and> dt st' = 0.9 * dt_of 2
      \<and> zt_next st' ! 0 ! 0
          = (1 + 2 * complex_of_real (0.9 * dt_of 2)
               * asub (aneg (anti_alias (grid_of (default_params\<lparr>N := 2\<rparr>))
                        (ft (jacobian (default_params\<lparr>N := 2\<rparr>)
                               (grid_of (default_params\<lparr>N := 2\<rparr>))
                               [[0, 0], [complex_of_real 4, 0]]))
                        (k_max (grid_of (default_params\<lparr>N := 2\<rparr>)))))
                   (ascale (complex_of_real (beta (default_params\<lparr>N := 2\<rparr>)))
                      (amul (ik (grid_of (default_params\<lparr>N := 2\<rparr>)))
                         (poisson (grid_of (default_params\<lparr>N := 2\<rparr>))
                            [[0, 0], [complex_of_real 4, 0]]))) ! 0 ! 0)
            * complex_of_real (del4 (grid_of (default_params\<lparr>N := 2\<rparr>)) ! 0 ! 0))
   \<and> (\<exists>c st'. integrate (default_params\<lparr>ALLOW_SPEEDUP := True, N := 2\<rparr>)
        (grid_of (default_params\<lparr>ALLOW_SPEEDUP := True, N := 2\<rparr>))
        \<lparr>zt_prev = [[1, 0], [0, 0]], zt = [[0, 0], [complex_of_real 1, 0]],
         zt_next = [[0, 0], [0, 0]], z = zeros 2 2, dt = dt_of 2\<rparr> = Inr (c, st')
      \<and> c = 4 / (5 * pi)
      \<and> c < SPEEDUP_AT_C (default_params\<lparr>ALLOW_SPEEDUP := True, N := 2\<rparr>)
      \<and> dt st' = 1.1 * dt_of 2)
   \<and> (\<exists>c st'. integrate (default_params\<lparr>N := 2\<rparr>) (grid_of (default_params\<lparr>N := 2\<rparr>))
        \<lparr>zt_prev = [[1, 0], [0, 0]], zt = [[0, 0], [complex_of_real 1, 0]],
         zt_next = [[0, 0], [0, 0]], z = zeros 2 2, dt = dt_of 2\<rparr> = Inr (c, st')
      \<and> c = 4 / (5 * pi) \<and> dt st' = dt_of 2)"
proof (intro conjI)
  let ?p = "default_params\<lparr>N := 2\<rparr>"
  let ?q = "default_params\<lparr>ALLOW_SPEEDUP := True, N := 2\<rparr>"
  let ?st = "\<lambda>a. \<lparr>zt_prev = [[1, 0], [0, 0]], zt = [[0, 0], [complex_of_real a, 0]],
         zt_next = [[0, 0], [0, 0]], z = zeros 2 2, dt = dt_of 2\<rparr>"
  have gp: "grid_ok 2 (grid_of ?p)" using grid_of_ok [of ?p] by simp
  have gq: "grid_ok 2 (grid_of ?q)" using grid_of_ok [of ?q] by simp
  have s: "state_ok 2 (?st a)" for a by (simp add: state_ok_def shape2_def)
  have sel: "zt (?st a) = [[0, 0], [complex_of_real a, 0]]" "dt (?st a) = dt_of 2"
    "zt_prev (?st a) = [[1, 0], [0, 0]]" for a
    by simp_all
  have two: "(0::nat) < 2" by simp
  have b1: "(4::real) / 5 < 16 / (5 * pi)"
    using pi_less_4 pi_gt_zero by (simp add: field_simps)
  have b2: "4 / (5 * pi) < (3::real) / 5"
    using pi_ge_two by (simp add: field_simps)
  have par: "SLOWDN_AT_C ?p = 4 / 5" "SPEEDUP_AT_C ?p = 3 / 5" "\<not> ALLOW_SPEEDUP ?p"
    "SLOWDN_AT_C ?q = 4 / 5" "SPEEDUP_AT_C ?q = 3 / 5" "ALLOW_SPEEDUP ?q"
    by (simp_all add: default_params_def)
  {
    from courant_adaptation [OF gp s [of 4] two, of ?p, unfolded Let_def sel]
    obtain c st' where r: "integrate ?p (grid_of ?p) (?st 4) = Inr (c, st')"
      "c = (Max (set (concat (ew cmod (ift (amul (ik (grid_of ?p))
                 (poisson (grid_of ?p) [[0, 0], [complex_of_real 4, 0]]))))))
            + Max (set (concat (ew cmod (ift (amul (il (grid_of ?p))
                 (poisson (grid_of ?p) [[0, 0], [complex_of_real 4, 0]])))))))
            * dt_of 2 / dx (grid_of ?p)"
      "c > SLOWDN_AT_C ?p \<longrightarrow> dt st' = 0.9 * dt_of 2"
      "\<forall>i<2. \<forall>j<2. zt_next st' ! i ! j
          = ([[1, 0], [0, 0]] ! i ! j + 2 * complex_of_real (dt st')
               * asub (aneg (anti_alias (grid_of ?p)
                        (ft (jacobian ?p (grid_of ?p) [[0, 0], [complex_of_real 4, 0]]))
                        (k_max (grid_of ?p))))
                   (ascale (complex_of_real (beta ?p))
                      (amul (ik (grid_of ?p))
                         (poisson (grid_of ?p) [[0, 0], [complex_of_real 4, 0]]))) ! i ! j)
            * complex_of_real (del4 (grid_of ?p) ! i ! j)"
      by blast
    have c: "c = 16 / (5 * pi)"
      unfolding r(2) using courant_2 [of 4 default_params] by simp
    have slow: "SLOWDN_AT_C ?p < c" unfolding c par using b1 .
    with r(3) have d: "dt st' = 0.9 * dt_of 2" by blast
    from r(4) have "zt_next st' ! 0 ! 0
          = ([[1, 0], [0, 0]] ! 0 ! 0 + 2 * complex_of_real (dt st')
               * asub (aneg (anti_alias (grid_of ?p)
                        (ft (jacobian ?p (grid_of ?p) [[0, 0], [complex_of_real 4, 0]]))
                        (k_max (grid_of ?p))))
                   (ascale (complex_of_real (beta ?p))
                      (amul (ik (grid_of ?p))
                         (poisson (grid_of ?p) [[0, 0], [complex_of_real 4, 0]]))) ! 0 ! 0)
            * complex_of_real (del4 (grid_of ?p) ! 0 ! 0)"
      by simp
    then have "zt_next st' ! 0 ! 0
          = (1 + 2 * complex_of_real (0.9 * dt_of 2)
               * asub (aneg (anti_alias (grid_of ?p)
                        (ft (jacobian ?p (grid_of ?p) [[0, 0], [complex_of_real 4, 0]]))
                        (k_max (grid_of ?p))))
                   (ascale (complex_of_real (beta ?p))
                      (amul (ik (grid_of ?p))
                         (poisson (grid_of ?p) [[0, 0], [complex_of_real 4, 0]]))) ! 0 ! 0)
            * complex_of_real (del4 (grid_of ?p) ! 0 ! 0)"
      unfolding d by simp
    with r(1) c slow d
    show "\<exists>c st'. integrate ?p (grid_of ?p) (?st 4) = Inr (c, st')
      \<and> c = 16 / (5 * pi) \<and> SLOWDN_AT_C ?p < c
      \<and> dt st' = 0.9 * dt_of 2
      \<and> zt_next st' ! 0 ! 0
          = (1 + 2 * complex_of_real (0.9 * dt_of 2)
               * asub (aneg (anti_alias (grid_of ?p)
                        (ft (jacobian ?p (grid_of ?p) [[0, 0], [complex_of_real 4, 0]]))
                        (k_max (grid_of ?p))))
                   (ascale (complex_of_real (beta ?p))
                      (amul (ik (grid_of ?p))
                         (poisson (grid_of ?p) [[0, 0], [complex_of_real 4, 0]]))) ! 0 ! 0)
            * complex_of_real (del4 (grid_of ?p) ! 0 ! 0)"
      by blast
  }
  {
    from courant_adaptation [OF gq s [of 1] two, of ?q, unfolded Let_def sel]
    obtain c st' where r: "integrate ?q (grid_of ?q) (?st 1) = Inr (c, st')"
      "c = (Max (set (concat (ew cmod (ift (amul (ik (grid_of ?q))
                 (poisson (grid_of ?q) [[0, 0], [complex_of_real 1, 0]]))))))
            + Max (set (concat (ew cmod (ift (amul (il (grid_of ?q))
                 (poisson (grid_of ?q) [[0, 0], [complex_of_real 1, 0]])))))))
            * dt_of 2 / dx (grid_of ?q)"
      "\<not> c > SLOWDN_AT_C ?q \<and> c < SPEEDUP_AT_C ?q \<and> ALLOW_SPEEDUP ?q
         \<longrightarrow> dt st' = 1.1 * dt_of 2"
      by blast
    have c: "c = 4 / (5 * pi)"
      unfolding r(2) using courant_2 [of 1 "default_params\<lparr>ALLOW_SPEEDUP := True\<rparr>"] by simp
    have fast: "c < SPEEDUP_AT_C ?q" unfolding c par using b2 .
    then have "\<not> c > SLOWDN_AT_C ?q" unfolding par by simp
    with r(3) fast par(6) have "dt st' = 1.1 * dt_of 2" by blast
    with r(1) c fast
    show "\<exists>c st'. integrate ?q (grid_of ?q) (?st 1) = Inr (c, st')
      \<and> c = 4 / (5 * pi) \<and> c < SPEEDUP_AT_C ?q \<and> dt st' = 1.1 * dt_of 2"
      by blast
  }
  {
    from courant_adaptation [OF gp s [of 1] two, of ?p, unfolded Let_def sel]
    obtain c st' where r: "integrate ?p (grid_of ?p) (?st 1) = Inr (c, st')"
      "c = (Max (set (concat (ew cmod (ift (amul (ik (grid_of ?p))
                 (poisson (grid_of ?p) [[0, 0], [complex_of_real 1, 0]]))))))
            + Max (set (concat (ew cmod (ift (amul (il (grid_of ?p))
                 (poisson (grid_of ?p) [[0, 0], [complex_of_real 1, 0]])))))))
            * dt_of 2 / dx (grid_of ?p)"
      "\<not> c > SLOWDN_AT_C ?p \<and> \<not> (c < SPEEDUP_AT_C ?p \<and> ALLOW_SPEEDUP ?p)
         \<longrightarrow> dt st' = dt_of 2"
      by blast
    have c: "c = 4 / (5 * pi)"
      unfolding r(2) using courant_2 [of 1 default_params] by simp
    have "c < 3 / 5" unfolding c using b2 .
    then have "\<not> c > SLOWDN_AT_C ?p" unfolding par by simp
    with r(3) par(3) have "dt st' = dt_of 2" by blast
    with r(1) c
    show "\<exists>c st'. integrate ?p (grid_of ?p) (?st 1) = Inr (c, st')
      \<and> c = 4 / (5 * pi) \<and> dt st' = dt_of 2"
      by blast
  }
qed

section \<open>The state of rest\<close>





















section \<open>Dissipation of the mean mode\<close>













end
